theory Spec2Isabelle
  imports Main "HOL-Library.Word" "HOL-Library.Sublist"
begin

section \<open>Timeline Monitor: the data model\<close>

text \<open>
  A shallow embedding of \<^verbatim>\<open>timeline_monitor.h\<close> (the variant in which every
  \<^verbatim>\<open>Timeline\<close> issues its own ids and exposes \<^verbatim>\<open>getDepth\<close>, which is the one the
  tests are written against). The variant under \<^verbatim>\<open>src/\<close> differs only in where the id
  counter lives; \<^verbatim>\<open>pushBegin\<close>, \<^verbatim>\<open>pushEnd\<close>, \<^verbatim>\<open>pushEndAndExport\<close>,
  \<^verbatim>\<open>clearIfNecessary\<close> and \<^verbatim>\<open>TimelineDump::toString\<close> are the same text in both.

  \<^item> \<^verbatim>\<open>uint64_t\<close> and \<^verbatim>\<open>uint32_t\<close> are \<open>64 word\<close> and \<open>32 word\<close>: \<open>+\<close> and \<open>-\<close> wrap.
  \<^item> A \<^verbatim>\<open>system_clock::time_point\<close> is represented by its count of microseconds since
    the epoch, an \<open>int\<close>; \<^verbatim>\<open>system_clock::now()\<close> is an input of every function that
    reads the clock.
  \<^item> A \<^verbatim>\<open>const char*\<close> name is the string it points to.
  \<^item> \<^verbatim>\<open>std::list<TimelineElem>\<close> is a HOL list, \<^verbatim>\<open>push_back\<close> appends at the end.
  \<^item> Member functions that mutate \<^verbatim>\<open>*this\<close> take the object and return the new one.
\<close>

type_synonym u64 = "64 word"
type_synonym u32 = "32 word"
type_synonym time_point = int

datatype Type = BEGIN | END

record TimelineElem =
  timelineName :: string
  type :: Type
  id' :: u64
  depth :: u32
  timestamp :: time_point

text \<open>The constructor \<^verbatim>\<open>TimelineElem(n, t, i, d)\<close>; its fifth field is the clock's reading.\<close>

definition mkTimelineElem :: "string \<Rightarrow> Type \<Rightarrow> u64 \<Rightarrow> u32 \<Rightarrow> time_point \<Rightarrow> TimelineElem" where
  "mkTimelineElem n t i d now =
     \<lparr>timelineName = n, type = t, id' = i, depth = d, timestamp = now\<rparr>"

text \<open>
  \<^verbatim>\<open>getEpochUs\<close>: the count of microseconds, converted to \<^verbatim>\<open>uint64_t\<close> (so reduced
  modulo \<open>2 ^ 64\<close>).
\<close>

definition getEpochUs :: "time_point \<Rightarrow> u64" where
  "getEpochUs tp = word_of_int tp"

record Timeline =
  eventIdCounter :: u64
  elems :: "TimelineElem list"
  lastDepth :: u32

text \<open>The default constructor \<^verbatim>\<open>Timeline() : eventIdCounter(0), lastDepth(0)\<close>.\<close>

definition newTimeline :: Timeline where
  "newTimeline = \<lparr>eventIdCounter = 0, elems = [], lastDepth = 0\<rparr>"

text \<open>
  Dereferencing \<^verbatim>\<open>elems.begin()\<close> of an empty list is undefined behaviour in C++; the
  model makes it a value.
\<close>

datatype error = DerefEndOfEmptyList

definition bind :: "error + 'a \<Rightarrow> ('a \<Rightarrow> error + 'b) \<Rightarrow> error + 'b" where
  "bind r f = (case r of Inl e \<Rightarrow> Inl e | Inr x \<Rightarrow> f x)"

section \<open>Timeline: the operations\<close>

text \<open>\<^verbatim>\<open>pushBegin\<close>: \<^verbatim>\<open>elems.push_back(TimelineElem(name, BEGIN, id, lastDepth++))\<close>.\<close>

definition pushBegin :: "string \<Rightarrow> u64 \<Rightarrow> time_point \<Rightarrow> Timeline \<Rightarrow> Timeline" where
  "pushBegin name i now tln =
     tln\<lparr>elems := elems tln @ [mkTimelineElem name BEGIN i (lastDepth tln) now],
        lastDepth := lastDepth tln + 1\<rparr>"

definition clear :: "Timeline \<Rightarrow> Timeline" where
  "clear tln = tln\<lparr>elems := []\<rparr>"

text \<open>
  \<^verbatim>\<open>clearIfNecessary\<close>: \<^verbatim>\<open>TimelineElem& first_elem = *elems.begin();\<close> and then
  \<^verbatim>\<open>if (first_elem.getId() == id) clear();\<close>. There is no emptiness check.
\<close>

definition clearIfNecessary :: "u64 \<Rightarrow> Timeline \<Rightarrow> error + Timeline" where
  "clearIfNecessary i tln =
     (case elems tln of
        [] \<Rightarrow> Inl DerefEndOfEmptyList
      | first_elem # _ \<Rightarrow> if id' first_elem = i then Inr (clear tln) else Inr tln)"

text \<open>
  \<^verbatim>\<open>pushEnd\<close>: \<^verbatim>\<open>elems.push_back(TimelineElem(name, END, id, --lastDepth));\<close> and then
  \<^verbatim>\<open>clearIfNecessary(id);\<close>.
\<close>

definition pushEnd :: "string \<Rightarrow> u64 \<Rightarrow> time_point \<Rightarrow> Timeline \<Rightarrow> error + Timeline" where
  "pushEnd name i now tln =
     (let tln1 = tln\<lparr>elems := elems tln @ [mkTimelineElem name END i (lastDepth tln - 1) now],
                   lastDepth := lastDepth tln - 1\<rparr>
      in clearIfNecessary i tln1)"

text \<open>
  \<^verbatim>\<open>pushEndAndExport\<close>: the same \<^verbatim>\<open>push_back\<close>, then \<^verbatim>\<open>Timeline ret = *this;\<close>, then
  \<^verbatim>\<open>clearIfNecessary(id);\<close> and \<^verbatim>\<open>return ret;\<close>. The result is the pair of the
  returned copy and the object itself afterwards.
\<close>

definition pushEndAndExport ::
  "string \<Rightarrow> u64 \<Rightarrow> time_point \<Rightarrow> Timeline \<Rightarrow> error + (Timeline \<times> Timeline)" where
  "pushEndAndExport name i now tln =
     (let tln1 = tln\<lparr>elems := elems tln @ [mkTimelineElem name END i (lastDepth tln - 1) now],
                   lastDepth := lastDepth tln - 1\<rparr>;
          ret = tln1
      in bind (clearIfNecessary i tln1) (\<lambda>tln2. Inr (ret, tln2)))"

definition getElems :: "Timeline \<Rightarrow> TimelineElem list" where
  "getElems tln = elems tln"

definition getDepth :: "Timeline \<Rightarrow> u32" where
  "getDepth tln = lastDepth tln"

text \<open>\<^verbatim>\<open>issueId\<close>: \<^verbatim>\<open>return eventIdCounter++;\<close>.\<close>

definition issueId :: "Timeline \<Rightarrow> u64 \<times> Timeline" where
  "issueId tln = (eventIdCounter tln, tln\<lparr>eventIdCounter := eventIdCounter tln + 1\<rparr>)"

section \<open>TimelineMonitor: the scope guard\<close>

text \<open>
  The guard's \<^verbatim>\<open>timelineRef\<close> is a C++ reference fixed at construction; every member
  function below takes the current value of the Timeline the guard is bound to and
  returns its new value. The remaining fields are the record.
\<close>

record TimelineMonitor =
  myName :: string
  myId :: u64
  done' :: bool

text \<open>
  Both constructors: \<^verbatim>\<open>myId(timelineRef.issueId()), done(false)\<close> and then
  \<^verbatim>\<open>timelineRef.pushBegin(myName, myId)\<close>.
\<close>

definition TimelineMonitor_ctor ::
  "string \<Rightarrow> time_point \<Rightarrow> Timeline \<Rightarrow> TimelineMonitor \<times> Timeline" where
  "TimelineMonitor_ctor name now tln =
     (let (i, tln1) = issueId tln;
          m = \<lparr>myName = name, myId = i, done' = False\<rparr>
      in (m, pushBegin (myName m) (myId m) now tln1))"

text \<open>The destructor: \<^verbatim>\<open>if (!done) { timelineRef.pushEnd(myName, myId); done = true; }\<close>.\<close>

definition TimelineMonitor_dtor ::
  "TimelineMonitor \<Rightarrow> time_point \<Rightarrow> Timeline \<Rightarrow> error + (TimelineMonitor \<times> Timeline)" where
  "TimelineMonitor_dtor m now tln =
     (if \<not> done' m
      then bind (pushEnd (myName m) (myId m) now tln) (\<lambda>tln1. Inr (m\<lparr>done' := True\<rparr>, tln1))
      else Inr (m, tln))"

text \<open>
  \<^verbatim>\<open>exportTimeline\<close>: \<^verbatim>\<open>Timeline ret = timelineRef.pushEndAndExport(myName, myId);\<close>
  then \<^verbatim>\<open>done = true; return ret;\<close>. The flag is written, never read.
\<close>

definition exportTimeline ::
  "TimelineMonitor \<Rightarrow> time_point \<Rightarrow> Timeline \<Rightarrow> error + (Timeline \<times> TimelineMonitor \<times> Timeline)" where
  "exportTimeline m now tln =
     bind (pushEndAndExport (myName m) (myId m) now tln)
       (\<lambda>(ret, tln1). Inr (ret, m\<lparr>done' := True\<rparr>, tln1))"

text \<open>
  \<^verbatim>\<open>getElapsedUs\<close>, a \<^verbatim>\<open>const\<close> member function: it returns a value and nothing else.
  The subtraction is one of \<^verbatim>\<open>uint64_t\<close>.
\<close>

definition getElapsedUs :: "TimelineMonitor \<Rightarrow> time_point \<Rightarrow> Timeline \<Rightarrow> u64" where
  "getElapsedUs m now tln =
     (case getElems tln of
        [] \<Rightarrow> 0
      | te # _ \<Rightarrow> getEpochUs now - getEpochUs (timestamp te))"

section \<open>The macros on the thread's default timeline\<close>

text \<open>
  A thread is its \<^verbatim>\<open>thread_events\<close> and the number of times it has read the clock; the
  clock is a function \<open>clk\<close> from that number to the reading, so that every reading is
  arbitrary. \<^verbatim>\<open>T_MONITOR_FUNC()\<close> and \<^verbatim>\<open>T_MONITOR_BLOCK(name)\<close> declare a guard named
  \<^verbatim>\<open>__auto_monitor\<close> on \<^verbatim>\<open>thread_events\<close>; \<^verbatim>\<open>T_MONITOR_EXPORT()\<close> is
  \<^verbatim>\<open>__auto_monitor.exportTimeline()\<close>; \<open>scope_exit\<close> is the guard's destructor run at
  the closing brace. A destructor that finds \<^verbatim>\<open>done\<close> set does not read the clock.
\<close>

record thread =
  thread_events :: Timeline
  clock_reads :: nat

definition T_MONITOR_BLOCK ::
  "(nat \<Rightarrow> time_point) \<Rightarrow> string \<Rightarrow> thread \<Rightarrow> TimelineMonitor \<times> thread" where
  "T_MONITOR_BLOCK clk name w =
     (let (m, tln1) = TimelineMonitor_ctor name (clk (clock_reads w)) (thread_events w)
      in (m, \<lparr>thread_events = tln1, clock_reads = Suc (clock_reads w)\<rparr>))"

text \<open>Inside a lambda \<^verbatim>\<open>__func__\<close> is the name of its call operator.\<close>

definition T_MONITOR_FUNC ::
  "(nat \<Rightarrow> time_point) \<Rightarrow> thread \<Rightarrow> TimelineMonitor \<times> thread" where
  "T_MONITOR_FUNC clk w = T_MONITOR_BLOCK clk ''operator()'' w"

definition T_MONITOR_EXPORT ::
  "(nat \<Rightarrow> time_point) \<Rightarrow> TimelineMonitor \<Rightarrow> thread \<Rightarrow>
     error + (Timeline \<times> TimelineMonitor \<times> thread)" where
  "T_MONITOR_EXPORT clk m w =
     bind (exportTimeline m (clk (clock_reads w)) (thread_events w))
       (\<lambda>(ret, m1, tln1).
          Inr (ret, m1, \<lparr>thread_events = tln1, clock_reads = Suc (clock_reads w)\<rparr>))"

definition scope_exit ::
  "(nat \<Rightarrow> time_point) \<Rightarrow> TimelineMonitor \<Rightarrow> thread \<Rightarrow> error + thread" where
  "scope_exit clk m w =
     bind (TimelineMonitor_dtor m (clk (clock_reads w)) (thread_events w))
       (\<lambda>(m1, tln1).
          Inr \<lparr>thread_events = tln1,
               clock_reads = (if done' m then clock_reads w else Suc (clock_reads w))\<rparr>)"

section \<open>The test programs\<close>

text \<open>
  \<^verbatim>\<open>hierarchical_test\<close>: \<^verbatim>\<open>func_1\<close> opens a function guard and runs \<open>A\<close> iterations of
  a block guard; \<^verbatim>\<open>func_2\<close> opens a function guard, calls \<^verbatim>\<open>func_1\<close> \<open>B\<close> times and
  returns \<^verbatim>\<open>T_MONITOR_EXPORT()\<close>. The loops count the iterations still to run.
\<close>

primrec hierarchical_func_1_loop ::
  "(nat \<Rightarrow> time_point) \<Rightarrow> nat \<Rightarrow> thread \<Rightarrow> error + thread" where
  "hierarchical_func_1_loop clk 0 w = Inr w"
| "hierarchical_func_1_loop clk (Suc r) w =
     (let (m, w1) = T_MONITOR_BLOCK clk ''func_1_inner'' w
      in bind (scope_exit clk m w1) (hierarchical_func_1_loop clk r))"

definition hierarchical_func_1 ::
  "(nat \<Rightarrow> time_point) \<Rightarrow> nat \<Rightarrow> thread \<Rightarrow> error + thread" where
  "hierarchical_func_1 clk A w =
     (let (m, w1) = T_MONITOR_FUNC clk w
      in bind (hierarchical_func_1_loop clk A w1) (scope_exit clk m))"

primrec hierarchical_func_2_loop ::
  "(nat \<Rightarrow> time_point) \<Rightarrow> nat \<Rightarrow> nat \<Rightarrow> thread \<Rightarrow> error + thread" where
  "hierarchical_func_2_loop clk A 0 w = Inr w"
| "hierarchical_func_2_loop clk A (Suc r) w =
     bind (hierarchical_func_1 clk A w) (hierarchical_func_2_loop clk A r)"

definition hierarchical_func_2 ::
  "(nat \<Rightarrow> time_point) \<Rightarrow> nat \<Rightarrow> nat \<Rightarrow> thread \<Rightarrow> error + (Timeline \<times> thread)" where
  "hierarchical_func_2 clk A B w =
     (let (m, w1) = T_MONITOR_FUNC clk w
      in bind (hierarchical_func_2_loop clk A B w1) (\<lambda>w2.
         bind (T_MONITOR_EXPORT clk m w2) (\<lambda>(ret, m1, w3).
         bind (scope_exit clk m1 w3) (\<lambda>w4. Inr (ret, w4)))))"

text \<open>
  \<^verbatim>\<open>hierarchical_test\<close> with \<open>A = 5\<close> and \<open>B = 10\<close>, run by a thread in state \<open>w\<close>; the
  result is the pair of numbers its two checks compare: \<^verbatim>\<open>ret.getElems().size()\<close> and
  \<^verbatim>\<open>ret.getDepth()\<close>.
\<close>

definition hierarchical_test :: "(nat \<Rightarrow> time_point) \<Rightarrow> thread \<Rightarrow> error + (nat \<times> u32)" where
  "hierarchical_test clk w =
     bind (hierarchical_func_2 clk 5 10 w)
       (\<lambda>(ret, w1). Inr (length (getElems ret), getDepth ret))"

text \<open>A thread that has not used its timeline yet: \<^verbatim>\<open>thread_events\<close> default-constructed.\<close>

definition new_thread :: thread where
  "new_thread = \<lparr>thread_events = newTimeline, clock_reads = 0\<rparr>"

text \<open>
  \<^verbatim>\<open>export_in_the_middle_test\<close>: the variable \<^verbatim>\<open>ret\<close> is captured by reference by both
  lambdas, so it is passed in and handed back.
\<close>

definition export_in_the_middle_func_1 ::
  "(nat \<Rightarrow> time_point) \<Rightarrow> bool \<Rightarrow> Timeline \<times> thread \<Rightarrow> error + (Timeline \<times> thread)" where
  "export_in_the_middle_func_1 clk do_middle_export rw =
     (let (ret, w) = rw;
          (m, w1) = T_MONITOR_FUNC clk w;
          (b, w2) = T_MONITOR_BLOCK clk ''func_1_inner'' w1
      in bind (scope_exit clk b w2) (\<lambda>w3.
         bind (if do_middle_export then T_MONITOR_EXPORT clk m w3 else Inr (ret, m, w3))
           (\<lambda>(ret1, m1, w4).
         bind (scope_exit clk m1 w4) (\<lambda>w5. Inr (ret1, w5)))))"

definition export_in_the_middle_func_2 ::
  "(nat \<Rightarrow> time_point) \<Rightarrow> bool \<Rightarrow> Timeline \<times> thread \<Rightarrow> error + (Timeline \<times> thread)" where
  "export_in_the_middle_func_2 clk do_middle_export rw =
     (let (ret, w) = rw;
          (m, w1) = T_MONITOR_FUNC clk w
      in bind (export_in_the_middle_func_1 clk do_middle_export (ret, w1)) (\<lambda>(ret1, w2).
         bind (if \<not> do_middle_export then T_MONITOR_EXPORT clk m w2 else Inr (ret1, m, w2))
           (\<lambda>(ret2, m1, w3).
         bind (scope_exit clk m1 w3) (\<lambda>w4. Inr (ret2, w4)))))"

text \<open>
  The test, run by a thread in state \<open>w\<close>: \<^verbatim>\<open>Timeline ret;\<close>, \<^verbatim>\<open>func_2(true)\<close>, the two
  checks, \<^verbatim>\<open>func_2(false)\<close>, the two checks. The result is the four numbers checked, and
  the thread afterwards.
\<close>

definition export_in_the_middle_test ::
  "(nat \<Rightarrow> time_point) \<Rightarrow> thread \<Rightarrow> error + ((nat \<times> u32) \<times> (nat \<times> u32) \<times> thread)" where
  "export_in_the_middle_test clk w =
     bind (export_in_the_middle_func_2 clk True (newTimeline, w)) (\<lambda>(ret1, w1).
     bind (export_in_the_middle_func_2 clk False (ret1, w1)) (\<lambda>(ret2, w2).
       Inr ((length (getElems ret1), getDepth ret1),
            (length (getElems ret2), getDepth ret2), w2)))"

section \<open>Nested scopes of guarded code\<close>

text \<open>
  Guards are objects with automatic storage, so their lifetimes nest as the blocks of the
  program do. A scope is a block that declares a guard first: it has the name and the
  clock reading of the guard's construction, the scopes entered inside it in program
  order, whether it ends with \<^verbatim>\<open>T_MONITOR_EXPORT()\<close> (or
  \<^verbatim>\<open>__auto_monitor.exportTimeline()\<close>) before its closing brace, and the clock reading of
  its End event. All guards of one run are bound to the same Timeline. \<open>runScope\<close>
  returns, for every export made during the run and in the order they are made, the copy
  returned together with the Timeline as the export left it, and the Timeline at the end.
\<close>

datatype scope = Scope string time_point "scope list" bool time_point

fun runScope :: "scope \<Rightarrow> Timeline \<Rightarrow> error + ((Timeline \<times> Timeline) list \<times> Timeline)"
  and runScopes :: "scope list \<Rightarrow> Timeline \<Rightarrow> error + ((Timeline \<times> Timeline) list \<times> Timeline)"
where
  "runScope (Scope name t0 body ex t1) tln =
     (let (m, tln1) = TimelineMonitor_ctor name t0 tln
      in bind (runScopes body tln1) (\<lambda>(xs, tln2).
           if ex then
             bind (exportTimeline m t1 tln2) (\<lambda>(ret, m1, tln3).
             bind (TimelineMonitor_dtor m1 t1 tln3) (\<lambda>(m2, tln4).
               Inr (xs @ [(ret, tln3)], tln4)))
           else
             bind (TimelineMonitor_dtor m t1 tln2) (\<lambda>(m1, tln3). Inr (xs, tln3))))"
| "runScopes [] tln = Inr ([], tln)"
| "runScopes (s # ss) tln =
     bind (runScope s tln) (\<lambda>(xs, tln1).
     bind (runScopes ss tln1) (\<lambda>(ys, tln2). Inr (xs @ ys, tln2)))"

text \<open>The number of scopes of a run, and the number of them that export.\<close>

fun scopeCount :: "scope \<Rightarrow> nat"
  and scopesCount :: "scope list \<Rightarrow> nat"
where
  "scopeCount (Scope name t0 body ex t1) = Suc (scopesCount body)"
| "scopesCount [] = 0"
| "scopesCount (s # ss) = scopeCount s + scopesCount ss"

fun exportCount :: "scope \<Rightarrow> nat"
  and exportsCount :: "scope list \<Rightarrow> nat"
where
  "exportCount (Scope name t0 body ex t1) = exportsCount body + (if ex then 1 else 0)"
| "exportsCount [] = 0"
| "exportsCount (s # ss) = exportCount s + exportsCount ss"

text \<open>
  Inside a chain, on any Timeline: it is not empty, its first event has id \<open>c0\<close>, and
  \<open>k > 0\<close> ids have been issued since \<open>c0\<close> was.
\<close>

definition in_chain :: "u64 \<Rightarrow> nat \<Rightarrow> Timeline \<Rightarrow> bool" where
  "in_chain c0 k tln =
     (elems tln \<noteq> [] \<and> id' (hd (elems tln)) = c0 \<and>
      eventIdCounter tln = c0 + of_nat k \<and> 0 < k)"

text \<open>
  An export \<open>x\<close> (the copy returned and the source as the export left it) kept the source:
  the source holds exactly the events of the copy, the copy holds more than the Timeline
  \<open>before\<close> did and no more than the Timeline \<open>after\<close> does.
\<close>

definition kept :: "Timeline \<Rightarrow> Timeline \<Rightarrow> Timeline \<times> Timeline \<Rightarrow> bool" where
  "kept before after x =
     (elems (snd x) = elems (fst x) \<and> strict_prefix (elems before) (elems (fst x)) \<and>
      prefix (elems (fst x)) (elems after))"

section \<open>Sequences of pushBegin and pushEnd calls\<close>

text \<open>
  A caller of the Timeline is a sequence of calls, each with the clock reading its event
  is stamped with. \<open>run\<close> makes the calls one after the other.
\<close>

datatype call = PushBegin string u64 time_point | PushEnd string u64 time_point

fun exec :: "call \<Rightarrow> Timeline \<Rightarrow> error + Timeline" where
  "exec (PushBegin name i now) tln = Inr (pushBegin name i now tln)"
| "exec (PushEnd name i now) tln = pushEnd name i now tln"

fun run :: "call list \<Rightarrow> Timeline \<Rightarrow> error + Timeline" where
  "run [] tln = Inr tln"
| "run (c # cs) tln = bind (exec c tln) (run cs)"

text \<open>
  The specification's notions. A sequence of calls is well nested when every
  \<^verbatim>\<open>pushEnd\<close> closes the most recently opened Begin that is still open, with that
  Begin's id; \<open>opened\<close> is the stack of ids still open. Scopes may remain open at the end.
\<close>

fun wellNestedFrom :: "u64 list \<Rightarrow> call list \<Rightarrow> bool" where
  "wellNestedFrom opened [] = True"
| "wellNestedFrom opened (PushBegin name i now # cs) = wellNestedFrom (i # opened) cs"
| "wellNestedFrom opened (PushEnd name i now # cs) =
     (case opened of [] \<Rightarrow> False | j # rest \<Rightarrow> i = j \<and> wellNestedFrom rest cs)"

definition wellNested :: "call list \<Rightarrow> bool" where
  "wellNested cs = wellNestedFrom [] cs"

text \<open>
  In a list of events, every End is matched with the most recent Begin still
  open, has its id and carries its depth; \<open>opened\<close> is the stack of Begin events still
  open.
\<close>

fun pairsAgree :: "TimelineElem list \<Rightarrow> TimelineElem list \<Rightarrow> bool" where
  "pairsAgree opened [] = True"
| "pairsAgree opened (e # es) =
     (case type e of
        BEGIN \<Rightarrow> pairsAgree (e # opened) es
      | END \<Rightarrow>
          (case opened of
             [] \<Rightarrow> False
           | b # rest \<Rightarrow> id' b = id' e \<and> depth b = depth e \<and> pairsAgree rest es))"

text \<open>
  The same check as a computation: \<open>openAfter opened es\<close> is the stack of Begin events
  still open after the events \<open>es\<close>, or \<open>None\<close> when some End event of \<open>es\<close> does not have
  the id and the depth of the Begin event it closes.
\<close>

fun closeStep :: "TimelineElem \<Rightarrow> TimelineElem list \<Rightarrow> TimelineElem list option" where
  "closeStep e opened =
     (case type e of
        BEGIN \<Rightarrow> Some (e # opened)
      | END \<Rightarrow>
          (case opened of
             [] \<Rightarrow> None
           | b # rest \<Rightarrow> if id' b = id' e \<and> depth b = depth e then Some rest else None))"

fun openAfter :: "TimelineElem list \<Rightarrow> TimelineElem list \<Rightarrow> TimelineElem list option" where
  "openAfter opened [] = Some opened"
| "openAfter opened (e # es) =
     (case closeStep e opened of None \<Rightarrow> None | Some opened1 \<Rightarrow> openAfter opened1 es)"

text \<open>What a call asks to be stored: the kind, id, name and time of its event.\<close>

fun callKey :: "call \<Rightarrow> Type \<times> u64 \<times> string \<times> time_point" where
  "callKey (PushBegin name i now) = (BEGIN, i, name, now)"
| "callKey (PushEnd name i now) = (END, i, name, now)"

fun callId :: "call \<Rightarrow> u64" where
  "callId (PushBegin name i now) = i"
| "callId (PushEnd name i now) = i"

definition elemKey :: "TimelineElem \<Rightarrow> Type \<times> u64 \<times> string \<times> time_point" where
  "elemKey e = (type e, id' e, timelineName e, timestamp e)"

text \<open>
  The open Begin events, innermost first, carry the depths \<open>d - 1\<close>, \<open>d - 2\<close>, ... when the
  nesting counter is \<open>d\<close>.
\<close>

fun openDepths :: "u32 \<Rightarrow> TimelineElem list \<Rightarrow> bool" where
  "openDepths d [] = True"
| "openDepths d (b # bs) = (type b = BEGIN \<and> depth b = d - 1 \<and> openDepths (d - 1) bs)"

text \<open>
  Inside a chain: the thread's timeline is not empty, its first event has id \<open>c0\<close>, \<open>k\<close>
  ids have been issued since \<open>c0\<close>, \<open>n\<close> events are stored and the nesting counter is \<open>d\<close>.
\<close>

definition chain_state :: "u64 \<Rightarrow> nat \<Rightarrow> nat \<Rightarrow> u32 \<Rightarrow> thread \<Rightarrow> bool" where
  "chain_state c0 k n d w =
     (elems (thread_events w) \<noteq> [] \<and>
      id' (hd (elems (thread_events w))) = c0 \<and>
      eventIdCounter (thread_events w) = c0 + of_nat k \<and>
      length (elems (thread_events w)) = n \<and>
      lastDepth (thread_events w) = d)"

section \<open>TimelineDump: the renderer\<close>

text \<open>
  \<^verbatim>\<open>operator<<\<close> on a \<^verbatim>\<open>uint64_t\<close> writes its decimal digits, \<^verbatim>\<open>std::endl\<close> writes a
  line feed, \<^verbatim>\<open>std::string(n, ' ')\<close> is \<open>n\<close> spaces.
\<close>

fun showDigits :: "nat \<Rightarrow> string" where
  "showDigits n =
     (if n < 10 then [''0123456789'' ! n]
      else showDigits (n div 10) @ [''0123456789'' ! (n mod 10)])"

declare showDigits.simps [simp del]

definition showU64 :: "u64 \<Rightarrow> string" where
  "showU64 x = showDigits (unat x)"

definition endl :: string where
  "endl = [CHR 0x0A]"

text \<open>
  The state of the loop of \<^verbatim>\<open>toString\<close>: the stream \<^verbatim>\<open>ret\<close>, the map \<^verbatim>\<open>begin_elems\<close>
  (from an id to the Begin event it points to; the pointers go into the function's own
  copy of the list) and the flag \<^verbatim>\<open>need_endl\<close>. \<^verbatim>\<open>unordered_map::insert\<close> leaves an
  entry that is already there.
\<close>

type_synonym dump_state = "string \<times> (u64 \<rightharpoonup> TimelineElem) \<times> bool"

definition toString_step :: "TimelineElem \<Rightarrow> dump_state \<Rightarrow> dump_state" where
  "toString_step cur_elem st =
     (let (ret, begin_elems, need_endl) = st in
      if type cur_elem = BEGIN then
        let begin_elems1 =
              (case begin_elems (id' cur_elem) of
                 None \<Rightarrow> begin_elems(id' cur_elem \<mapsto> cur_elem)
               | Some _ \<Rightarrow> begin_elems);
            ret1 = (if need_endl then ret @ endl else ret)
        in (ret1 @ replicate (unat (depth cur_elem)) CHR '' '' @ timelineName cur_elem @ '', '' @
              showU64 (getEpochUs (timestamp cur_elem)),
            begin_elems1, True)
      else
        (case begin_elems (id' cur_elem) of
           None \<Rightarrow> (ret, begin_elems, need_endl)
         | Some begin_elem \<Rightarrow>
             let ret1 = (if need_endl then ret @ endl else ret)
             in (ret1 @ replicate (unat (depth begin_elem)) CHR '' '' @
                   timelineName begin_elem @ '', '' @
                   showU64 (getEpochUs (timestamp cur_elem)) @ '', '' @
                   showU64 (getEpochUs (timestamp cur_elem) - getEpochUs (timestamp begin_elem)),
                 begin_elems, True)))"

primrec toString_loop :: "TimelineElem list \<Rightarrow> dump_state \<Rightarrow> dump_state" where
  "toString_loop [] st = st"
| "toString_loop (entry # rest) st = toString_loop rest (toString_step entry st)"

definition toString :: "Timeline \<Rightarrow> string" where
  "toString src = fst (toString_loop (getElems src) ([], Map.empty, False))"

text \<open>
  The specification's reading of the output. An End event is an orphan when no Begin
  event with its id comes earlier in the sequence. An orphan gives no line; a Begin
  event gives the line of its own depth, name and time; any other End event gives the
  line of the depth and name of the earliest Begin with its id, its own time and the
  time between the two. The output is the lines with a line feed between them.
\<close>

definition earlierBegin :: "TimelineElem list \<Rightarrow> u64 \<Rightarrow> TimelineElem option" where
  "earlierBegin earlier i = find (\<lambda>b. type b = BEGIN \<and> id' b = i) earlier"

definition orphanEnd :: "TimelineElem list \<Rightarrow> TimelineElem \<Rightarrow> bool" where
  "orphanEnd earlier e = (type e = END \<and> earlierBegin earlier (id' e) = None)"

definition beginLine :: "TimelineElem \<Rightarrow> string" where
  "beginLine e =
     replicate (unat (depth e)) CHR '' '' @ timelineName e @ '', '' @
     showU64 (getEpochUs (timestamp e))"

definition endLine :: "TimelineElem \<Rightarrow> TimelineElem \<Rightarrow> string" where
  "endLine b e =
     replicate (unat (depth b)) CHR '' '' @ timelineName b @ '', '' @
     showU64 (getEpochUs (timestamp e)) @ '', '' @
     showU64 (getEpochUs (timestamp e) - getEpochUs (timestamp b))"

definition lineOf :: "TimelineElem list \<Rightarrow> TimelineElem \<Rightarrow> string list" where
  "lineOf earlier e =
     (case type e of
        BEGIN \<Rightarrow> [beginLine e]
      | END \<Rightarrow>
          (case earlierBegin earlier (id' e) of
             None \<Rightarrow> []
           | Some b \<Rightarrow> [endLine b e]))"

fun specLines :: "TimelineElem list \<Rightarrow> TimelineElem list \<Rightarrow> string list" where
  "specLines earlier [] = []"
| "specLines earlier (e # es) = lineOf earlier e @ specLines (earlier @ [e]) es"

fun orphans :: "TimelineElem list \<Rightarrow> TimelineElem list \<Rightarrow> nat" where
  "orphans earlier [] = 0"
| "orphans earlier (e # es) =
     (if orphanEnd earlier e then 1 else 0) + orphans (earlier @ [e]) es"

fun joinLines :: "string list \<Rightarrow> string" where
  "joinLines [] = []"
| "joinLines [l] = l"
| "joinLines (l # ls) = l @ endl @ joinLines ls"

section \<open>Properties of the Timeline operations\<close>

lemma bind_Inr [simp]: "bind (Inr x) f = f x"
  by (simp add: bind_def)

lemma bind_Inl [simp]: "bind (Inl e) f = Inl e"
  by (simp add: bind_def)

lemma pushEnd_eq:
  "pushEnd name i now tln =
     Inr (tln\<lparr>elems := (if id' (hd (elems tln @ [mkTimelineElem name END i (lastDepth tln - 1) now])) = i
                        then []
                        else elems tln @ [mkTimelineElem name END i (lastDepth tln - 1) now]),
            lastDepth := lastDepth tln - 1\<rparr>)"
  by (cases "elems tln") (simp_all add: pushEnd_def clearIfNecessary_def clear_def Let_def)

lemma pushEndAndExport_eq:
  "pushEndAndExport name i now tln =
     Inr (tln\<lparr>elems := elems tln @ [mkTimelineElem name END i (lastDepth tln - 1) now],
             lastDepth := lastDepth tln - 1\<rparr>,
          tln\<lparr>elems := (if id' (hd (elems tln @ [mkTimelineElem name END i (lastDepth tln - 1) now])) = i
                        then []
                        else elems tln @ [mkTimelineElem name END i (lastDepth tln - 1) now]),
             lastDepth := lastDepth tln - 1\<rparr>)"
  by (cases "elems tln") (simp_all add: pushEndAndExport_def clearIfNecessary_def clear_def Let_def)

lemma unat_minus_one_u32: "unat (- 1 :: u32) = 4294967295"
  by (simp add: unsigned_minus_1_eq_mask mask_eq_exp_minus_1)

subsection \<open>pushEnd\<close>

text \<open>
  Claim C2. For every Timeline and every call \<^verbatim>\<open>pushEnd(name, id)\<close>: the call returns; the
  nesting counter is decremented; the End event built carries the new counter value as
  its depth and is appended at the back; then the sequence is emptied if and only if the
  first event of the sequence with the End appended has the id passed, and otherwise it is
  the old sequence with the End appended. The id counter is not touched.
\<close>

theorem pushEnd_appends_then_resets:
  "\<exists>tln'. pushEnd name i now tln = Inr tln' \<and>
     lastDepth tln' = lastDepth tln - 1 \<and>
     eventIdCounter tln' = eventIdCounter tln \<and>
     (let e = mkTimelineElem name END i (lastDepth tln') now;
          appended = elems tln @ [e]
      in type e = END \<and> id' e = i \<and> depth e = lastDepth tln - 1 \<and>
         last appended = e \<and>
         (elems tln' = [] \<longleftrightarrow> id' (hd appended) = i) \<and>
         elems tln' = (if id' (hd appended) = i then [] else appended))"
  by (simp add: pushEnd_eq Let_def mkTimelineElem_def)

subsection \<open>pushEndAndExport\<close>

text \<open>
  Claim C3. For every Timeline, \<^verbatim>\<open>pushEndAndExport(name, id)\<close> returns; the object it
  leaves behind is the one \<^verbatim>\<open>pushEnd(name, id)\<close> leaves; the copy returned holds every
  event the Timeline held followed by the End event, with the decremented counter,
  whether or not the source is then reset; and the source is emptied if and only if the
  first event of the copy has the id passed.
\<close>

theorem pushEndAndExport_copies_then_resets:
  "\<exists>ret tln'. pushEndAndExport name i now tln = Inr (ret, tln') \<and>
     pushEnd name i now tln = Inr tln' \<and>
     elems ret = elems tln @ [mkTimelineElem name END i (lastDepth tln - 1) now] \<and>
     lastDepth ret = lastDepth tln - 1 \<and>
     eventIdCounter ret = eventIdCounter tln \<and>
     lastDepth tln' = lastDepth ret \<and>
     eventIdCounter tln' = eventIdCounter ret \<and>
     (elems tln' = [] \<longleftrightarrow> id' (hd (elems ret)) = i) \<and>
     elems tln' = (if id' (hd (elems ret)) = i then [] else elems ret)"
  by (simp add: pushEnd_eq pushEndAndExport_eq)

subsection \<open>The first-element access of clearIfNecessary\<close>

text \<open>
  Claim C9. In \<^verbatim>\<open>pushEnd\<close> and in \<^verbatim>\<open>pushEndAndExport\<close> the Timeline handed to
  \<^verbatim>\<open>clearIfNecessary\<close> has a non-empty event sequence, so neither call dereferences the
  end of an empty list; \<^verbatim>\<open>clearIfNecessary\<close> called on a Timeline with no events (a
  default-constructed one, for instance) does.
\<close>

theorem first_element_access:
  "(let tln1 = tln\<lparr>elems := elems tln @ [mkTimelineElem name END i (lastDepth tln - 1) now],
                    lastDepth := lastDepth tln - 1\<rparr>
    in elems tln1 \<noteq> [] \<and>
       pushEnd name i now tln = clearIfNecessary i tln1 \<and>
       pushEndAndExport name i now tln = bind (clearIfNecessary i tln1) (\<lambda>tln2. Inr (tln1, tln2)) \<and>
       clearIfNecessary i tln1 \<noteq> Inl DerefEndOfEmptyList) \<and>
   pushEnd name i now tln \<noteq> Inl DerefEndOfEmptyList \<and>
   pushEndAndExport name i now tln \<noteq> Inl DerefEndOfEmptyList \<and>
   clearIfNecessary i (tln\<lparr>elems := []\<rparr>) = Inl DerefEndOfEmptyList \<and>
   clearIfNecessary i newTimeline = Inl DerefEndOfEmptyList"
proof -
  have a: "pushEnd name i now tln \<noteq> Inl DerefEndOfEmptyList"
    by (simp add: pushEnd_eq)
  have b: "pushEndAndExport name i now tln \<noteq> Inl DerefEndOfEmptyList"
    by (simp add: pushEndAndExport_eq)
  have c: "clearIfNecessary i (tln\<lparr>elems := []\<rparr>) = Inl DerefEndOfEmptyList"
    by (simp add: clearIfNecessary_def)
  have d: "clearIfNecessary i newTimeline = Inl DerefEndOfEmptyList"
    by (simp add: clearIfNecessary_def newTimeline_def)
  show ?thesis
    using a b c d by (simp add: Let_def pushEnd_def pushEndAndExport_def)
qed

subsection \<open>The nesting counter wraps\<close>

text \<open>
  Claim C10. The nesting counter is a 32-bit unsigned value. \<^verbatim>\<open>pushEnd\<close> or
  \<^verbatim>\<open>pushEndAndExport\<close> on a Timeline whose counter is 0 builds an End event of depth
  \<open>2 ^ 32 - 1\<close> (it is the last event of the exported copy) and leaves the counter at
  \<open>2 ^ 32 - 1\<close>; when the Timeline held no event, the End matches itself and the
  sequence is emptied all the same.
\<close>

theorem unmatched_end_wraps:
  assumes "lastDepth tln = 0"
  shows "\<exists>ret tln'. pushEndAndExport name i now tln = Inr (ret, tln') \<and>
           pushEnd name i now tln = Inr tln' \<and>
           last (elems ret) = mkTimelineElem name END i (2 ^ 32 - 1) now \<and>
           unat (depth (last (elems ret))) = 2 ^ 32 - 1 \<and>
           unat (getDepth ret) = 2 ^ 32 - 1 \<and>
           unat (getDepth tln') = 2 ^ 32 - 1 \<and>
           elems tln' = (if elems tln = [] \<or> id' (hd (elems tln)) = i then [] else elems ret)"
  using assms
  by (cases "elems tln")
     (simp_all add: pushEnd_eq pushEndAndExport_eq getDepth_def mkTimelineElem_def
        unat_minus_one_u32)

theorem unmatched_end_wraps_witness:
  "lastDepth newTimeline = 0 \<and>
   pushEnd ''f'' 7 100 newTimeline = Inr \<lparr>eventIdCounter = 0, elems = [], lastDepth = 4294967295\<rparr> \<and>
   pushEndAndExport ''f'' 7 100 newTimeline =
     Inr (\<lparr>eventIdCounter = 0,
           elems = [\<lparr>timelineName = ''f'', type = END, id' = 7, depth = 4294967295, timestamp = 100\<rparr>],
           lastDepth = 4294967295\<rparr>,
          \<lparr>eventIdCounter = 0, elems = [], lastDepth = 4294967295\<rparr>)"
  using unmatched_end_wraps [of newTimeline "''f''" 7 100]
  by (simp add: newTimeline_def pushEnd_eq pushEndAndExport_eq mkTimelineElem_def)

subsection \<open>getElapsedUs\<close>

lemma uint_getEpochUs_diff:
  "uint (getEpochUs a - getEpochUs b) = (a - b) mod 2 ^ 64"
proof -
  have "getEpochUs a - getEpochUs b = (word_of_int (a - b) :: u64)"
    by (simp add: getEpochUs_def)
  then have "uint (getEpochUs a - getEpochUs b) = take_bit 64 (a - b)"
    by (simp only: uint_word_of_int_eq) simp
  then show ?thesis
    by (simp add: take_bit_eq_mod)
qed

lemma getElapsedUs_uint:
  "uint (getElapsedUs m now tln) =
     (if elems tln = [] then 0 else (now - timestamp (hd (elems tln))) mod 2 ^ 64)"
  by (cases "elems tln") (simp_all add: getElapsedUs_def getElems_def uint_getEpochUs_diff)

text \<open>
  Claim C7, as the specification words it: for every current time the result is the
  difference in microseconds between the current time and the timestamp of the first
  stored event. \<^verbatim>\<open>system_clock\<close> can be set back. With a first event stamped 100 and a
  clock reading of 50 the result is neither \<open>50 - 100\<close> nor \<open>100 - 50\<close>: the
  \<^verbatim>\<open>uint64_t\<close> subtraction wraps around to \<open>2 ^ 64 - 50\<close>.
\<close>

theorem getElapsedUs_backwards_clock_counterexample:
  "elems (pushBegin ''f'' 0 100 newTimeline) \<noteq> [] \<and>
   timestamp (hd (elems (pushBegin ''f'' 0 100 newTimeline))) = 100 \<and>
   getElapsedUs \<lparr>myName = ''f'', myId = 0, done' = False\<rparr> 50
     (pushBegin ''f'' 0 100 newTimeline) = 18446744073709551566 \<and>
   uint (getElapsedUs \<lparr>myName = ''f'', myId = 0, done' = False\<rparr> 50
     (pushBegin ''f'' 0 100 newTimeline)) \<noteq> 50 - 100 \<and>
   uint (getElapsedUs \<lparr>myName = ''f'', myId = 0, done' = False\<rparr> 50
     (pushBegin ''f'' 0 100 newTimeline)) \<noteq> 100 - 50"
  by (simp add: getElapsedUs_uint pushBegin_def newTimeline_def mkTimelineElem_def
      getElapsedUs_def getElems_def getEpochUs_def)

text \<open>
  Claim C7, amended. For every guard, finalized or not, every Timeline it is bound to
  and every reading of the clock: \<^verbatim>\<open>getElapsedUs\<close> is 0 when the Timeline holds no event;
  otherwise it is the \<^verbatim>\<open>uint64_t\<close> difference of the clock reading and the timestamp
  of the first stored event, both in microseconds, that is, their difference modulo
  \<open>2 ^ 64\<close>. This is the number of microseconds elapsed whenever the clock reading is
  not earlier than that timestamp (and less than \<open>2 ^ 64\<close> microseconds later); when
  the clock reading is earlier by \<open>y\<close> microseconds, it is \<open>2 ^ 64 - y\<close>. The function
  returns a number only: it has no Timeline or guard to hand back.
\<close>

theorem getElapsedUs_spec:
  "(elems tln = [] \<longrightarrow> getElapsedUs m now tln = 0) \<and>
   (elems tln \<noteq> [] \<longrightarrow>
      getElapsedUs m now tln = getEpochUs now - getEpochUs (timestamp (hd (elems tln))) \<and>
      uint (getElapsedUs m now tln) = (now - timestamp (hd (elems tln))) mod 2 ^ 64) \<and>
   (elems tln \<noteq> [] \<and> timestamp (hd (elems tln)) \<le> now \<and>
    now - timestamp (hd (elems tln)) < 2 ^ 64 \<longrightarrow>
      uint (getElapsedUs m now tln) = now - timestamp (hd (elems tln))) \<and>
   (elems tln \<noteq> [] \<and> now < timestamp (hd (elems tln)) \<and>
    timestamp (hd (elems tln)) - now \<le> 2 ^ 64 \<longrightarrow>
      uint (getElapsedUs m now tln) = 2 ^ 64 - (timestamp (hd (elems tln)) - now))"
proof -
  have a: "elems tln = [] \<longrightarrow> getElapsedUs m now tln = 0"
    by (simp add: getElapsedUs_def getElems_def)
  have b: "elems tln \<noteq> [] \<longrightarrow>
      getElapsedUs m now tln = getEpochUs now - getEpochUs (timestamp (hd (elems tln)))"
    by (cases "elems tln") (simp_all add: getElapsedUs_def getElems_def)
  have c: "x mod 2 ^ 64 = x" if "0 \<le> x" "x < 2 ^ 64" for x :: int
    using that by simp
  have d: "(- y) mod 2 ^ 64 = 2 ^ 64 - y" if "0 < y" "y \<le> 2 ^ 64" for y :: int
  proof -
    have "(- y) mod 2 ^ 64 = (2 ^ 64 + (- y)) mod 2 ^ 64"
      by (rule mod_add_self1 [symmetric])
    also have "\<dots> = 2 ^ 64 + (- y)"
      using that by (intro mod_pos_pos_trivial) simp_all
    finally show ?thesis by simp
  qed
  have u: "uint (getElapsedUs m now tln) = (now - timestamp (hd (elems tln))) mod 2 ^ 64"
    if "elems tln \<noteq> []"
    using that by (simp add: getElapsedUs_uint)
  have fwd: "uint (getElapsedUs m now tln) = now - timestamp (hd (elems tln))"
    if "elems tln \<noteq> []" "timestamp (hd (elems tln)) \<le> now"
      "now - timestamp (hd (elems tln)) < 2 ^ 64"
    using u [OF that(1)] c [of "now - timestamp (hd (elems tln))"] that(2,3) by simp
  have bwd: "uint (getElapsedUs m now tln) = 2 ^ 64 - (timestamp (hd (elems tln)) - now)"
    if "elems tln \<noteq> []" "now < timestamp (hd (elems tln))"
      "timestamp (hd (elems tln)) - now \<le> 2 ^ 64"
  proof -
    have "now - timestamp (hd (elems tln)) = - (timestamp (hd (elems tln)) - now)"
      by simp
    then have "uint (getElapsedUs m now tln) = (- (timestamp (hd (elems tln)) - now)) mod 2 ^ 64"
      using u [OF that(1)] by (simp only:)
    also have "\<dots> = 2 ^ 64 - (timestamp (hd (elems tln)) - now)"
      using that(2,3) by (intro d) simp_all
    finally show ?thesis .
  qed
  from a b u fwd bwd show ?thesis by blast
qed

theorem getElapsedUs_spec_witness:
  "elems (pushBegin ''f'' 0 100 newTimeline) \<noteq> [] \<and>
   timestamp (hd (elems (pushBegin ''f'' 0 100 newTimeline))) = 100 \<and>
   (100::int) \<le> 250 \<and> (250::int) - 100 < 2 ^ 64 \<and>
   getElapsedUs \<lparr>myName = ''f'', myId = 0, done' = False\<rparr> 250
     (pushBegin ''f'' 0 100 newTimeline) = 150 \<and>
   uint (getElapsedUs \<lparr>myName = ''f'', myId = 0, done' = False\<rparr> 250
     (pushBegin ''f'' 0 100 newTimeline)) = 250 - 100 \<and>
   (50::int) < 100 \<and> (100::int) - 50 \<le> 2 ^ 64 \<and>
   uint (getElapsedUs \<lparr>myName = ''f'', myId = 0, done' = False\<rparr> 50
     (pushBegin ''f'' 0 100 newTimeline)) = 2 ^ 64 - (100 - 50) \<and>
   elems newTimeline = [] \<and>
   getElapsedUs \<lparr>myName = ''f'', myId = 0, done' = True\<rparr> 250 newTimeline = 0"
  using getElapsedUs_spec [of "pushBegin ''f'' 0 100 newTimeline"
      "\<lparr>myName = ''f'', myId = 0, done' = False\<rparr>" 250]
    getElapsedUs_spec [of "pushBegin ''f'' 0 100 newTimeline"
      "\<lparr>myName = ''f'', myId = 0, done' = False\<rparr>" 50]
    getElapsedUs_spec [of newTimeline "\<lparr>myName = ''f'', myId = 0, done' = True\<rparr>" 250]
  by (simp add: pushBegin_def newTimeline_def mkTimelineElem_def getEpochUs_def)

section \<open>Properties of the scope guard\<close>

lemma issued_id_fresh:
  assumes "0 < k" "k < 2 ^ 64"
  shows "c0 + (of_nat k :: u64) \<noteq> c0"
proof -
  have "\<not> 2 ^ 64 dvd k"
    using assms by (auto dest: dvd_imp_le)
  then have "(of_nat k :: u64) \<noteq> 0"
    by (simp add: word_of_nat_eq_0_iff)
  then show ?thesis by simp
qed

lemma exportTimeline_eq:
  "exportTimeline m now tln =
     Inr (tln\<lparr>elems := elems tln @ [mkTimelineElem (myName m) END (myId m) (lastDepth tln - 1) now],
             lastDepth := lastDepth tln - 1\<rparr>,
          m\<lparr>done' := True\<rparr>,
          tln\<lparr>elems := (if id' (hd (elems tln @
                                [mkTimelineElem (myName m) END (myId m) (lastDepth tln - 1) now])) = myId m
                        then []
                        else elems tln @
                          [mkTimelineElem (myName m) END (myId m) (lastDepth tln - 1) now]),
             lastDepth := lastDepth tln - 1\<rparr>)"
  by (simp add: exportTimeline_def pushEndAndExport_eq)

text \<open>The destructor of a finalized guard changes nothing.\<close>

lemma dtor_after_finalization:
  "done' m \<Longrightarrow> TimelineMonitor_dtor m now tln = Inr (m, tln)"
  by (simp add: TimelineMonitor_dtor_def)

text \<open>Export, then the end of the scope: the destructor appends no second End event.\<close>

lemma export_then_dtor:
  "exportTimeline m now tln = Inr (ret, m1, tln1) \<Longrightarrow>
     TimelineMonitor_dtor m1 now1 tln1 = Inr (m1, tln1)"
  by (auto simp: exportTimeline_eq TimelineMonitor_dtor_def)

text \<open>A destructor that ran leaves the guard finalized, so running it again changes nothing.\<close>

lemma dtor_then_dtor:
  "TimelineMonitor_dtor m now tln = Inr (m1, tln1) \<Longrightarrow>
     TimelineMonitor_dtor m1 now1 tln1 = Inr (m1, tln1)"
  by (auto simp: TimelineMonitor_dtor_def pushEnd_eq split: if_splits)

text \<open>
  Claim C4 says that every further finalization of a finalized guard appends no End
  event, \<^verbatim>\<open>exportTimeline\<close> on a finalized guard included. The destructor checks the
  flag; \<^verbatim>\<open>exportTimeline\<close> does not. Here a guard \<open>inner\<close> is opened inside a guard
  \<open>outer\<close> on a new Timeline and exported twice (at times 3 and 4): the first export
  sets the flag, and the second one appends a second End event with the same id, takes
  the nesting counter down to 0 while \<open>outer\<close> is still open, and returns a copy with
  both End events.
\<close>

theorem exportTimeline_twice_appends_second_end:
  "(let (outer, t1) = TimelineMonitor_ctor ''outer'' 1 newTimeline;
        (inner, t2) = TimelineMonitor_ctor ''inner'' 2 t1
    in bind (exportTimeline inner 3 t2) (\<lambda>(ret1, m1, t3).
       bind (exportTimeline m1 4 t3) (\<lambda>(ret2, m2, t4).
         Inr (done' m1, length (elems ret1), elems ret2, lastDepth t4)))) =
   Inr (True, 3,
        [\<lparr>timelineName = ''outer'', type = BEGIN, id' = 0, depth = 0, timestamp = 1\<rparr>,
         \<lparr>timelineName = ''inner'', type = BEGIN, id' = 1, depth = 1, timestamp = 2\<rparr>,
         \<lparr>timelineName = ''inner'', type = END, id' = 1, depth = 1, timestamp = 3\<rparr>,
         \<lparr>timelineName = ''inner'', type = END, id' = 1, depth = 0, timestamp = 4\<rparr>],
        0)"
  by (simp add: TimelineMonitor_ctor_def issueId_def pushBegin_def newTimeline_def
      exportTimeline_eq mkTimelineElem_def)

section \<open>Properties of the test programs\<close>

lemma T_MONITOR_BLOCK_step:
  "T_MONITOR_BLOCK clk name \<lparr>thread_events = \<lparr>eventIdCounter = c, elems = es, lastDepth = d\<rparr>,
                             clock_reads = n\<rparr> =
     (\<lparr>myName = name, myId = c, done' = False\<rparr>,
      \<lparr>thread_events =
         \<lparr>eventIdCounter = c + 1, elems = es @ [mkTimelineElem name BEGIN c d (clk n)],
          lastDepth = d + 1\<rparr>,
       clock_reads = Suc n\<rparr>)"
  by (simp add: T_MONITOR_BLOCK_def TimelineMonitor_ctor_def issueId_def pushBegin_def)

lemma scope_exit_step:
  "scope_exit clk \<lparr>myName = name, myId = i, done' = False\<rparr>
     \<lparr>thread_events = \<lparr>eventIdCounter = c, elems = es, lastDepth = d\<rparr>, clock_reads = n\<rparr> =
     Inr \<lparr>thread_events =
           \<lparr>eventIdCounter = c,
            elems = (if id' (hd (es @ [mkTimelineElem name END i (d - 1) (clk n)])) = i then []
                     else es @ [mkTimelineElem name END i (d - 1) (clk n)]),
            lastDepth = d - 1\<rparr>,
          clock_reads = Suc n\<rparr>"
  by (simp add: scope_exit_def TimelineMonitor_dtor_def pushEnd_eq)

lemma scope_exit_done:
  "scope_exit clk \<lparr>myName = name, myId = i, done' = True\<rparr> w = Inr w"
  by (simp add: scope_exit_def TimelineMonitor_dtor_def)

lemma T_MONITOR_EXPORT_step:
  "T_MONITOR_EXPORT clk \<lparr>myName = name, myId = i, done' = b\<rparr>
     \<lparr>thread_events = \<lparr>eventIdCounter = c, elems = es, lastDepth = d\<rparr>, clock_reads = n\<rparr> =
     Inr (\<lparr>eventIdCounter = c, elems = es @ [mkTimelineElem name END i (d - 1) (clk n)],
           lastDepth = d - 1\<rparr>,
          \<lparr>myName = name, myId = i, done' = True\<rparr>,
          \<lparr>thread_events =
           \<lparr>eventIdCounter = c,
            elems = (if id' (hd (es @ [mkTimelineElem name END i (d - 1) (clk n)])) = i then []
                     else es @ [mkTimelineElem name END i (d - 1) (clk n)]),
            lastDepth = d - 1\<rparr>,
          clock_reads = Suc n\<rparr>)"
  by (simp add: T_MONITOR_EXPORT_def exportTimeline_def pushEndAndExport_eq)

lemmas thread_steps = T_MONITOR_BLOCK_step scope_exit_step scope_exit_done T_MONITOR_EXPORT_step
  T_MONITOR_FUNC_def mkTimelineElem_def

lemma export_in_the_middle_first_run:
  "\<exists>ret. export_in_the_middle_func_2 clk True
       (ret0, \<lparr>thread_events = \<lparr>eventIdCounter = c, elems = [], lastDepth = 0\<rparr>,
               clock_reads = n\<rparr>) =
       Inr (ret, \<lparr>thread_events = \<lparr>eventIdCounter = c + 3, elems = [], lastDepth = 0\<rparr>,
                  clock_reads = n + 6\<rparr>) \<and>
     length (elems ret) = 5 \<and> lastDepth ret = 1"
  by (simp add: export_in_the_middle_func_2_def export_in_the_middle_func_1_def thread_steps)

lemma export_in_the_middle_second_run:
  "\<exists>ret. export_in_the_middle_func_2 clk False
       (ret0, \<lparr>thread_events = \<lparr>eventIdCounter = c, elems = [], lastDepth = 0\<rparr>,
               clock_reads = n\<rparr>) =
       Inr (ret, \<lparr>thread_events = \<lparr>eventIdCounter = c + 3, elems = [], lastDepth = 0\<rparr>,
                  clock_reads = n + 6\<rparr>) \<and>
     length (elems ret) = 6 \<and> lastDepth ret = 0"
  by (simp add: export_in_the_middle_func_2_def export_in_the_middle_func_1_def thread_steps)

lemma export_in_the_middle_test_eq:
  assumes "elems (thread_events w) = []" "lastDepth (thread_events w) = 0"
  shows "export_in_the_middle_test clk w = Inr ((5, 1), (6, 0),
     \<lparr>thread_events =
        \<lparr>eventIdCounter = eventIdCounter (thread_events w) + 6, elems = [], lastDepth = 0\<rparr>,
      clock_reads = clock_reads w + 12\<rparr>)"
proof -
  define c where "c = eventIdCounter (thread_events w)"
  define n where "n = clock_reads w"
  have w: "w = \<lparr>thread_events = \<lparr>eventIdCounter = c, elems = [], lastDepth = 0\<rparr>,
                clock_reads = n\<rparr>"
    using assms by (simp add: c_def n_def)
  obtain ret1 where r1: "export_in_the_middle_func_2 clk True (newTimeline, w) =
       Inr (ret1, \<lparr>thread_events = \<lparr>eventIdCounter = c + 3, elems = [], lastDepth = 0\<rparr>,
                   clock_reads = n + 6\<rparr>)"
    "length (elems ret1) = 5" "lastDepth ret1 = 1"
    using export_in_the_middle_first_run [of clk newTimeline c n] unfolding w by blast
  obtain ret2 where r2: "export_in_the_middle_func_2 clk False
       (ret1, \<lparr>thread_events = \<lparr>eventIdCounter = c + 3, elems = [], lastDepth = 0\<rparr>,
               clock_reads = n + 6\<rparr>) =
       Inr (ret2, \<lparr>thread_events = \<lparr>eventIdCounter = c + 3 + 3, elems = [], lastDepth = 0\<rparr>,
                   clock_reads = n + 6 + 6\<rparr>)"
    "length (elems ret2) = 6" "lastDepth ret2 = 0"
    using export_in_the_middle_second_run [of clk ret1 "c + 3" "n + 6"] by blast
  show ?thesis
    using r1 r2 by (simp add: export_in_the_middle_test_def getElems_def getDepth_def c_def n_def)
qed

subsection \<open>Chains of nested scopes\<close>

lemma ctor_in_chain:
  assumes "in_chain c0 k tln" "k < 2 ^ 64"
  shows "\<exists>m tln1. TimelineMonitor_ctor name t0 tln = (m, tln1) \<and>
           myId m \<noteq> c0 \<and> \<not> done' m \<and> myName m = name \<and>
           elems tln1 = elems tln @ [mkTimelineElem name BEGIN (myId m) (lastDepth tln) t0] \<and>
           lastDepth tln1 = lastDepth tln + 1 \<and>
           in_chain c0 (Suc k) tln1"
proof -
  have "eventIdCounter tln \<noteq> c0"
    using assms issued_id_fresh [of k c0] by (simp add: in_chain_def)
  then show ?thesis
    using assms(1)
    by (cases "elems tln")
       (simp_all add: in_chain_def TimelineMonitor_ctor_def issueId_def pushBegin_def
          add.commute)
qed

lemma export_in_chain:
  assumes "in_chain c0 k tln" "myId m \<noteq> c0"
  shows "\<exists>ret tln1. exportTimeline m t1 tln = Inr (ret, m\<lparr>done' := True\<rparr>, tln1) \<and>
           elems ret = elems tln @ [mkTimelineElem (myName m) END (myId m) (lastDepth tln - 1) t1] \<and>
           lastDepth ret = lastDepth tln - 1 \<and>
           elems tln1 = elems ret \<and> lastDepth tln1 = lastDepth tln - 1 \<and>
           in_chain c0 k tln1"
  using assms
  by (cases "elems tln") (auto simp: in_chain_def exportTimeline_eq)

lemma dtor_in_chain:
  assumes "in_chain c0 k tln" "myId m \<noteq> c0" "\<not> done' m"
  shows "\<exists>tln1. TimelineMonitor_dtor m t1 tln = Inr (m\<lparr>done' := True\<rparr>, tln1) \<and>
           elems tln1 = elems tln @ [mkTimelineElem (myName m) END (myId m) (lastDepth tln - 1) t1] \<and>
           lastDepth tln1 = lastDepth tln - 1 \<and>
           in_chain c0 k tln1"
  using assms
  by (cases "elems tln") (auto simp: in_chain_def TimelineMonitor_dtor_def pushEnd_eq)

lemma prefix_strict_trans:
  "prefix xs ys \<Longrightarrow> strict_prefix ys zs \<Longrightarrow> strict_prefix xs zs"
  by (auto simp: strict_prefix_def prefix_def)

lemma strict_prefix_snoc: "prefix xs ys \<Longrightarrow> strict_prefix xs (ys @ [y])"
  by (auto simp: strict_prefix_def prefix_def)

lemma kept_widen:
  assumes "kept b a x" "prefix (elems b') (elems b)" "prefix (elems a) (elems a')"
  shows "kept b' a' x"
  using assms unfolding kept_def
  by (auto intro: prefix_strict_trans prefix_order.trans)

lemma scope_in_chain:
  "in_chain c0 k tln \<Longrightarrow> k + scopeCount s < 2 ^ 64 \<Longrightarrow>
     \<exists>xs tln'. runScope s tln = Inr (xs, tln') \<and>
       in_chain c0 (k + scopeCount s) tln' \<and> lastDepth tln' = lastDepth tln \<and>
       prefix (elems tln) (elems tln') \<and>
       length (elems tln') = length (elems tln) + 2 * scopeCount s \<and>
       length xs = exportCount s \<and>
       (\<forall>x\<in>set xs. kept tln tln' x)"
  and scopes_in_chain:
  "in_chain c0 k tln \<Longrightarrow> k + scopesCount ss < 2 ^ 64 \<Longrightarrow>
     \<exists>xs tln'. runScopes ss tln = Inr (xs, tln') \<and>
       in_chain c0 (k + scopesCount ss) tln' \<and> lastDepth tln' = lastDepth tln \<and>
       prefix (elems tln) (elems tln') \<and>
       length (elems tln') = length (elems tln) + 2 * scopesCount ss \<and>
       length xs = exportsCount ss \<and>
       (\<forall>x\<in>set xs. kept tln tln' x)"
proof (induction s tln and ss tln arbitrary: k and k rule: runScope_runScopes.induct)
  case (1 name t0 body ex t1 tln)
  from "1.prems" have kb: "k < 2 ^ 64" by simp
  from ctor_in_chain [OF "1.prems"(1) kb, of name t0] obtain m tln1 where
    c: "TimelineMonitor_ctor name t0 tln = (m, tln1)" and
    m: "myId m \<noteq> c0" "\<not> done' m" and
    e1: "elems tln1 = elems tln @ [mkTimelineElem name BEGIN (myId m) (lastDepth tln) t0]" and
    d1: "lastDepth tln1 = lastDepth tln + 1" and
    i1: "in_chain c0 (Suc k) tln1"
    by blast
  have kb1: "Suc k + scopesCount body < 2 ^ 64"
    using "1.prems"(2) by simp
  from "1.IH" [OF c [symmetric] refl i1 kb1] obtain xs tln2 where
    r2: "runScopes body tln1 = Inr (xs, tln2)" and
    i2: "in_chain c0 (Suc k + scopesCount body) tln2" and
    d2: "lastDepth tln2 = lastDepth tln1" and
    p2: "prefix (elems tln1) (elems tln2)" and
    l2: "length (elems tln2) = length (elems tln1) + 2 * scopesCount body" and
    n2: "length xs = exportsCount body" and
    k2: "\<forall>x\<in>set xs. kept tln1 tln2 x"
    by blast
  have p01: "prefix (elems tln) (elems tln1)"
    using e1 by simp
  show ?case
  proof (cases ex)
    case True
    from export_in_chain [OF i2 m(1), of t1] obtain ret tln3 where
      x: "exportTimeline m t1 tln2 = Inr (ret, m\<lparr>done' := True\<rparr>, tln3)" and
      e3: "elems ret = elems tln2 @ [mkTimelineElem (myName m) END (myId m) (lastDepth tln2 - 1) t1]"
        "elems tln3 = elems ret" and
      d3: "lastDepth tln3 = lastDepth tln2 - 1" and
      i3: "in_chain c0 (Suc k + scopesCount body) tln3"
      by blast
    have dt: "TimelineMonitor_dtor (m\<lparr>done' := True\<rparr>) t1 tln3 = Inr (m\<lparr>done' := True\<rparr>, tln3)"
      by (simp add: TimelineMonitor_dtor_def)
    have run: "runScope (Scope name t0 body ex t1) tln = Inr (xs @ [(ret, tln3)], tln3)"
      using True c r2 x dt by simp
    have p23: "prefix (elems tln2) (elems tln3)"
      using e3 by simp
    have a: "\<forall>x\<in>set xs. kept tln tln3 x"
      using k2 p01 p23 by (blast intro: kept_widen)
    have "strict_prefix (elems tln) (elems ret)"
      using p01 p2 e3(1)
      by (auto intro!: strict_prefix_snoc intro: prefix_order.trans)
    then have b: "kept tln tln3 (ret, tln3)"
      using e3 by (simp add: kept_def)
    have p03: "prefix (elems tln) (elems tln3)"
      using p01 p2 p23 by (blast intro: prefix_order.trans)
    have len: "length (elems tln3) = length (elems tln) + 2 * scopeCount (Scope name t0 body ex t1)"
      using l2 e1 e3 by simp
    have cnt: "length (xs @ [(ret, tln3)]) = exportCount (Scope name t0 body ex t1)"
      using n2 True by simp
    have ic: "in_chain c0 (k + scopeCount (Scope name t0 body ex t1)) tln3"
      using i3 by simp
    have dd: "lastDepth tln3 = lastDepth tln"
      using d1 d2 d3 by simp
    have al: "\<forall>x\<in>set (xs @ [(ret, tln3)]). kept tln tln3 x"
      using a b by simp
    show ?thesis
      using run ic dd p03 len cnt al by blast
  next
    case False
    from dtor_in_chain [OF i2 m, of t1] obtain tln3 where
      x: "TimelineMonitor_dtor m t1 tln2 = Inr (m\<lparr>done' := True\<rparr>, tln3)" and
      e3: "elems tln3 = elems tln2 @ [mkTimelineElem (myName m) END (myId m) (lastDepth tln2 - 1) t1]" and
      d3: "lastDepth tln3 = lastDepth tln2 - 1" and
      i3: "in_chain c0 (Suc k + scopesCount body) tln3"
      by blast
    have run: "runScope (Scope name t0 body ex t1) tln = Inr (xs, tln3)"
      using False c r2 x by simp
    have p23: "prefix (elems tln2) (elems tln3)"
      using e3 by simp
    have a: "\<forall>x\<in>set xs. kept tln tln3 x"
      using k2 p01 p23 by (blast intro: kept_widen)
    have p03: "prefix (elems tln) (elems tln3)"
      using p01 p2 p23 by (blast intro: prefix_order.trans)
    have len: "length (elems tln3) = length (elems tln) + 2 * scopeCount (Scope name t0 body ex t1)"
      using l2 e1 e3 by simp
    have cnt: "length xs = exportCount (Scope name t0 body ex t1)"
      using n2 False by simp
    have ic: "in_chain c0 (k + scopeCount (Scope name t0 body ex t1)) tln3"
      using i3 by simp
    have dd: "lastDepth tln3 = lastDepth tln"
      using d1 d2 d3 by simp
    show ?thesis
      using run ic dd p03 len cnt a by blast
  qed
next
  case (2 tln)
  then show ?case by simp
next
  case (3 s ss tln)
  have k1: "k + scopeCount s < 2 ^ 64"
    using "3.prems"(2) by simp
  from "3.IH"(1) [OF "3.prems"(1) k1] obtain xs tln1 where
    r1: "runScope s tln = Inr (xs, tln1)" and
    i1: "in_chain c0 (k + scopeCount s) tln1" and
    d1: "lastDepth tln1 = lastDepth tln" and
    p1: "prefix (elems tln) (elems tln1)" and
    l1: "length (elems tln1) = length (elems tln) + 2 * scopeCount s" and
    n1: "length xs = exportCount s" and
    x1: "\<forall>x\<in>set xs. kept tln tln1 x"
    by blast
  have k2: "k + scopeCount s + scopesCount ss < 2 ^ 64"
    using "3.prems"(2) by simp
  from "3.IH"(2) [OF i1 k2] obtain ys tln2 where
    r2: "runScopes ss tln1 = Inr (ys, tln2)" and
    i2: "in_chain c0 (k + scopeCount s + scopesCount ss) tln2" and
    d2: "lastDepth tln2 = lastDepth tln1" and
    p2: "prefix (elems tln1) (elems tln2)" and
    l2: "length (elems tln2) = length (elems tln1) + 2 * scopesCount ss" and
    n2: "length ys = exportsCount ss" and
    x2: "\<forall>x\<in>set ys. kept tln1 tln2 x"
    by blast
  have a: "\<forall>x\<in>set xs. kept tln tln2 x"
    using x1 p2 by (blast intro: kept_widen)
  have b: "\<forall>x\<in>set ys. kept tln tln2 x"
    using x2 p1 by (blast intro: kept_widen)
  have run: "runScopes (s # ss) tln = Inr (xs @ ys, tln2)"
    using r1 r2 by simp
  have p02: "prefix (elems tln) (elems tln2)"
    using p1 p2 by (blast intro: prefix_order.trans)
  have len: "length (elems tln2) = length (elems tln) + 2 * scopesCount (s # ss)"
    using l1 l2 by simp
  have cnt: "length (xs @ ys) = exportsCount (s # ss)"
    using n1 n2 by simp
  have ic: "in_chain c0 (k + scopesCount (s # ss)) tln2"
    using i2 by (simp add: add.assoc)
  have dd: "lastDepth tln2 = lastDepth tln"
    using d1 d2 by simp
  have al: "\<forall>x\<in>set (xs @ ys). kept tln tln2 x"
    using a b by auto
  show ?case
    using run ic dd p02 len cnt al by blast
qed

lemma outermost_body:
  assumes "elems tln = []" "Suc (scopesCount body) < 2 ^ 64"
  shows "\<exists>m tln1 xs tln2. TimelineMonitor_ctor name t0 tln = (m, tln1) \<and>
           \<not> done' m \<and>
           runScopes body tln1 = Inr (xs, tln2) \<and>
           in_chain (myId m) (Suc (scopesCount body)) tln2 \<and>
           lastDepth tln2 = lastDepth tln + 1 \<and>
           length (elems tln2) = Suc (2 * scopesCount body) \<and>
           length xs = exportsCount body \<and>
           (\<forall>x\<in>set xs. elems (snd x) = elems (fst x) \<and> elems (fst x) \<noteq> [] \<and>
                       prefix (elems (fst x)) (elems tln2))"
proof -
  define c0 where "c0 = eventIdCounter tln"
  obtain m tln1 where c: "TimelineMonitor_ctor name t0 tln = (m, tln1)"
    by (cases "TimelineMonitor_ctor name t0 tln")
  have m: "myId m = c0" "\<not> done' m"
    using c by (auto simp: c0_def TimelineMonitor_ctor_def issueId_def Let_def)
  have i1: "in_chain c0 1 tln1" and d1: "lastDepth tln1 = lastDepth tln + 1"
    and l1: "length (elems tln1) = 1"
    using c assms(1)
    by (auto simp: c0_def in_chain_def TimelineMonitor_ctor_def issueId_def pushBegin_def
        mkTimelineElem_def Let_def)
  have "1 + scopesCount body < 2 ^ 64"
    using assms(2) by simp
  from scopes_in_chain [OF i1 this] obtain xs tln2 where
    r: "runScopes body tln1 = Inr (xs, tln2)" and
    i2: "in_chain c0 (1 + scopesCount body) tln2" and
    d2: "lastDepth tln2 = lastDepth tln1" and
    l2: "length (elems tln2) = length (elems tln1) + 2 * scopesCount body" and
    n: "length xs = exportsCount body" and
    k: "\<forall>x\<in>set xs. kept tln1 tln2 x"
    by blast
  have "\<forall>x\<in>set xs. elems (snd x) = elems (fst x) \<and> elems (fst x) \<noteq> [] \<and>
          prefix (elems (fst x)) (elems tln2)"
    using k by (auto simp: kept_def)
  then show ?thesis
    using c m r i2 d1 d2 l1 l2 n by auto
qed

lemma outermost_export:
  assumes "elems tln = []" "scopeCount (Scope name t0 body True t1) < 2 ^ 64"
  shows "\<exists>xs ret src tln'.
           runScope (Scope name t0 body True t1) tln = Inr (xs @ [(ret, src)], tln') \<and>
           length xs = exportsCount body \<and>
           (\<forall>x\<in>set xs. elems (snd x) = elems (fst x) \<and> elems (fst x) \<noteq> [] \<and>
                       strict_prefix (elems (fst x)) (elems ret)) \<and>
           length (elems ret) = 2 * scopeCount (Scope name t0 body True t1) \<and>
           lastDepth ret = lastDepth tln \<and>
           elems src = [] \<and> elems tln' = [] \<and> lastDepth tln' = lastDepth tln"
proof -
  from assms(2) have "Suc (scopesCount body) < 2 ^ 64" by simp
  from outermost_body [OF assms(1) this, of name t0] obtain m tln1 xs tln2 where
    c: "TimelineMonitor_ctor name t0 tln = (m, tln1)" and
    r: "runScopes body tln1 = Inr (xs, tln2)" and
    i2: "in_chain (myId m) (Suc (scopesCount body)) tln2" and
    d2: "lastDepth tln2 = lastDepth tln + 1" and
    l2: "length (elems tln2) = Suc (2 * scopesCount body)" and
    n: "length xs = exportsCount body" and
    k: "\<forall>x\<in>set xs. elems (snd x) = elems (fst x) \<and> elems (fst x) \<noteq> [] \<and>
                       prefix (elems (fst x)) (elems tln2)"
    by blast
  let ?e = "mkTimelineElem (myName m) END (myId m) (lastDepth tln2 - 1) t1"
  let ?ret = "tln2\<lparr>elems := elems tln2 @ [?e], lastDepth := lastDepth tln2 - 1\<rparr>"
  let ?src = "tln2\<lparr>elems := [], lastDepth := lastDepth tln2 - 1\<rparr>"
  have x: "exportTimeline m t1 tln2 = Inr (?ret, m\<lparr>done' := True\<rparr>, ?src)"
    using i2 by (cases "elems tln2") (simp_all add: in_chain_def exportTimeline_eq)
  have dt: "TimelineMonitor_dtor (m\<lparr>done' := True\<rparr>) t1 ?src = Inr (m\<lparr>done' := True\<rparr>, ?src)"
    by (simp add: TimelineMonitor_dtor_def)
  have run: "runScope (Scope name t0 body True t1) tln = Inr (xs @ [(?ret, ?src)], ?src)"
    using c r x dt by simp
  have k': "\<forall>x\<in>set xs. elems (snd x) = elems (fst x) \<and> elems (fst x) \<noteq> [] \<and>
                       strict_prefix (elems (fst x)) (elems ?ret)"
    using k by (auto intro: strict_prefix_snoc)
  show ?thesis
    using run n k' l2 d2 by auto
qed

lemma outermost_exit:
  assumes "elems tln = []" "scopeCount (Scope name t0 body False t1) < 2 ^ 64"
  shows "\<exists>xs tln'.
           runScope (Scope name t0 body False t1) tln = Inr (xs, tln') \<and>
           length xs = exportsCount body \<and>
           (\<forall>x\<in>set xs. elems (snd x) = elems (fst x) \<and> elems (fst x) \<noteq> []) \<and>
           elems tln' = [] \<and> lastDepth tln' = lastDepth tln"
proof -
  from assms(2) have "Suc (scopesCount body) < 2 ^ 64" by simp
  from outermost_body [OF assms(1) this, of name t0] obtain m tln1 xs tln2 where
    c: "TimelineMonitor_ctor name t0 tln = (m, tln1)" and
    m: "\<not> done' m" and
    r: "runScopes body tln1 = Inr (xs, tln2)" and
    i2: "in_chain (myId m) (Suc (scopesCount body)) tln2" and
    d2: "lastDepth tln2 = lastDepth tln + 1" and
    n: "length xs = exportsCount body" and
    k: "\<forall>x\<in>set xs. elems (snd x) = elems (fst x) \<and> elems (fst x) \<noteq> [] \<and>
                       prefix (elems (fst x)) (elems tln2)"
    by blast
  let ?src = "tln2\<lparr>elems := [], lastDepth := lastDepth tln2 - 1\<rparr>"
  have dt: "TimelineMonitor_dtor m t1 tln2 = Inr (m\<lparr>done' := True\<rparr>, ?src)"
    using i2 m
    by (cases "elems tln2") (simp_all add: in_chain_def TimelineMonitor_dtor_def pushEnd_eq)
  have run: "runScope (Scope name t0 body False t1) tln = Inr (xs, ?src)"
    using c r dt by simp
  show ?thesis
    using run n k d2 by auto
qed

text \<open>
  Claim C5. Take any outermost scope entered on an empty Timeline, with any scopes
  nested inside it to any depth, any of which may export at its end, the ids being the
  ones the Timeline issues (fewer than \<open>2 ^ 64\<close> scopes in all). Every export from an
  inner scope returns a non-empty copy and leaves the source holding exactly the events
  of that copy, so nothing is cleared; each such copy is an initial part of what the
  outermost export returns. The outermost export then returns the events of all scopes,
  two per scope, at the depth the Timeline started with, and empties the source; if the
  outermost scope does not export, its destructor empties the source. The reason is the
  one the claim gives: an export by a guard whose id is not the id of the first stored
  event keeps the source, an export by the guard whose id is that id empties it. In
  \<^verbatim>\<open>export_in_the_middle_test\<close>, run by a thread whose timeline is empty with nesting
  counter 0, whatever the clock reads, the copy exported by the inner function in the
  first run has 5 events and depth 1, and the copy exported by the outer function in
  the second run has 6 events and depth 0.
\<close>

theorem mid_chain_export_keeps_source:
  "(elems T = [] \<and> scopeCount (Scope nm ta body True tb) < 2 ^ 64 \<longrightarrow>
      (\<exists>xs ret src T'.
         runScope (Scope nm ta body True tb) T = Inr (xs @ [(ret, src)], T') \<and>
         length xs = exportsCount body \<and>
         (\<forall>x\<in>set xs. elems (snd x) = elems (fst x) \<and> elems (fst x) \<noteq> [] \<and>
                     strict_prefix (elems (fst x)) (elems ret)) \<and>
         length (elems ret) = 2 * scopeCount (Scope nm ta body True tb) \<and>
         lastDepth ret = lastDepth T \<and>
         elems src = [] \<and> elems T' = [] \<and> lastDepth T' = lastDepth T)) \<and>
   (elems T = [] \<and> scopeCount (Scope nm ta body False tb) < 2 ^ 64 \<longrightarrow>
      (\<exists>xs T'.
         runScope (Scope nm ta body False tb) T = Inr (xs, T') \<and>
         length xs = exportsCount body \<and>
         (\<forall>x\<in>set xs. elems (snd x) = elems (fst x) \<and> elems (fst x) \<noteq> []) \<and>
         elems T' = [] \<and> lastDepth T' = lastDepth T)) \<and>
   (elems tln \<noteq> [] \<and> id' (hd (elems tln)) \<noteq> myId m \<longrightarrow>
      (\<exists>ret m1 tln1. exportTimeline m now tln = Inr (ret, m1, tln1) \<and>
         elems ret = elems tln @ [mkTimelineElem (myName m) END (myId m) (lastDepth tln - 1) now] \<and>
         elems tln1 = elems ret)) \<and>
   (elems tln \<noteq> [] \<and> id' (hd (elems tln)) = myId m \<longrightarrow>
      (\<exists>ret m1 tln1. exportTimeline m now tln = Inr (ret, m1, tln1) \<and>
         elems ret = elems tln @ [mkTimelineElem (myName m) END (myId m) (lastDepth tln - 1) now] \<and>
         elems tln1 = [])) \<and>
   (elems tln = [] \<longrightarrow>
      (let (outer, t1) = TimelineMonitor_ctor name1 now1 tln;
           (inner, t2) = TimelineMonitor_ctor name2 now2 t1
       in \<exists>ret m1 t3 ret' m2 t4.
            exportTimeline inner now3 t2 = Inr (ret, m1, t3) \<and>
            elems ret = elems t2 @ [mkTimelineElem name2 END (myId inner) (lastDepth tln + 1) now3] \<and>
            elems t3 = elems ret \<and>
            exportTimeline outer now4 t3 = Inr (ret', m2, t4) \<and>
            elems ret' = elems t3 @ [mkTimelineElem name1 END (myId outer) (lastDepth tln) now4] \<and>
            elems t4 = [])) \<and>
   (elems (thread_events w) = [] \<and> lastDepth (thread_events w) = 0 \<longrightarrow>
      (\<exists>w'. export_in_the_middle_test clk w = Inr ((5, 1), (6, 0), w') \<and>
         elems (thread_events w') = [] \<and> lastDepth (thread_events w') = 0))"
proof -
  have a: "elems tln \<noteq> [] \<and> id' (hd (elems tln)) \<noteq> myId m \<longrightarrow>
      (\<exists>ret m1 tln1. exportTimeline m now tln = Inr (ret, m1, tln1) \<and>
         elems ret = elems tln @ [mkTimelineElem (myName m) END (myId m) (lastDepth tln - 1) now] \<and>
         elems tln1 = elems ret)"
    by (cases "elems tln") (simp_all add: exportTimeline_eq)
  have b: "elems tln \<noteq> [] \<and> id' (hd (elems tln)) = myId m \<longrightarrow>
      (\<exists>ret m1 tln1. exportTimeline m now tln = Inr (ret, m1, tln1) \<and>
         elems ret = elems tln @ [mkTimelineElem (myName m) END (myId m) (lastDepth tln - 1) now] \<and>
         elems tln1 = [])"
    by (cases "elems tln") (simp_all add: exportTimeline_eq)
  have c: "elems tln = [] \<longrightarrow>
      (let (outer, t1) = TimelineMonitor_ctor name1 now1 tln;
           (inner, t2) = TimelineMonitor_ctor name2 now2 t1
       in \<exists>ret m1 t3 ret' m2 t4.
            exportTimeline inner now3 t2 = Inr (ret, m1, t3) \<and>
            elems ret = elems t2 @ [mkTimelineElem name2 END (myId inner) (lastDepth tln + 1) now3] \<and>
            elems t3 = elems ret \<and>
            exportTimeline outer now4 t3 = Inr (ret', m2, t4) \<and>
            elems ret' = elems t3 @ [mkTimelineElem name1 END (myId outer) (lastDepth tln) now4] \<and>
            elems t4 = [])"
    by (simp add: TimelineMonitor_ctor_def issueId_def pushBegin_def exportTimeline_eq
        mkTimelineElem_def)
  have d: "elems (thread_events w) = [] \<and> lastDepth (thread_events w) = 0 \<longrightarrow>
      (\<exists>w'. export_in_the_middle_test clk w = Inr ((5, 1), (6, 0), w') \<and>
         elems (thread_events w') = [] \<and> lastDepth (thread_events w') = 0)"
    by (simp add: export_in_the_middle_test_eq)
  have e: "elems T = [] \<and> scopeCount (Scope nm ta body True tb) < 2 ^ 64 \<longrightarrow>
      (\<exists>xs ret src T'.
         runScope (Scope nm ta body True tb) T = Inr (xs @ [(ret, src)], T') \<and>
         length xs = exportsCount body \<and>
         (\<forall>x\<in>set xs. elems (snd x) = elems (fst x) \<and> elems (fst x) \<noteq> [] \<and>
                     strict_prefix (elems (fst x)) (elems ret)) \<and>
         length (elems ret) = 2 * scopeCount (Scope nm ta body True tb) \<and>
         lastDepth ret = lastDepth T \<and>
         elems src = [] \<and> elems T' = [] \<and> lastDepth T' = lastDepth T)"
    using outermost_export [of T nm ta body tb] by blast
  have f: "elems T = [] \<and> scopeCount (Scope nm ta body False tb) < 2 ^ 64 \<longrightarrow>
      (\<exists>xs T'.
         runScope (Scope nm ta body False tb) T = Inr (xs, T') \<and>
         length xs = exportsCount body \<and>
         (\<forall>x\<in>set xs. elems (snd x) = elems (fst x) \<and> elems (fst x) \<noteq> []) \<and>
         elems T' = [] \<and> lastDepth T' = lastDepth T)"
    using outermost_exit [of T nm ta body tb] by blast
  from a b c d e f show ?thesis by blast
qed

theorem mid_chain_export_keeps_source_witness:
  "elems newTimeline = [] \<and>
   scopeCount (Scope ''f'' 0 [Scope ''g'' 1 [Scope ''h'' 2 [] False 3] True 4] True 5) < 2 ^ 64 \<and>
   (\<exists>xs ret src T'.
      runScope (Scope ''f'' 0 [Scope ''g'' 1 [Scope ''h'' 2 [] False 3] True 4] True 5)
        newTimeline = Inr (xs @ [(ret, src)], T') \<and>
      length xs = 1 \<and> length (elems ret) = 6 \<and> lastDepth ret = 0 \<and>
      elems src = [] \<and> elems T' = []) \<and>
   (\<exists>r1 s1 r2 s2 T'.
      runScope (Scope ''f'' 0 [Scope ''g'' 1 [Scope ''h'' 2 [] False 3] True 4] True 5)
        newTimeline = Inr ([(r1, s1), (r2, s2)], T') \<and>
      length (elems r1) = 5 \<and> lastDepth r1 = 1 \<and> elems s1 = elems r1 \<and>
      length (elems r2) = 6 \<and> lastDepth r2 = 0 \<and> elems s2 = []) \<and>
   id' (hd [mkTimelineElem ''f'' BEGIN 0 0 10, mkTimelineElem ''g'' BEGIN 1 1 20]) \<noteq>
     myId \<lparr>myName = ''g'', myId = 1, done' = False\<rparr> \<and>
   (\<exists>ret m1 tln1.
      exportTimeline \<lparr>myName = ''g'', myId = 1, done' = False\<rparr> 30
        \<lparr>eventIdCounter = 2,
         elems = [mkTimelineElem ''f'' BEGIN 0 0 10, mkTimelineElem ''g'' BEGIN 1 1 20],
         lastDepth = 2\<rparr> = Inr (ret, m1, tln1) \<and>
      elems ret = [mkTimelineElem ''f'' BEGIN 0 0 10, mkTimelineElem ''g'' BEGIN 1 1 20,
                   mkTimelineElem ''g'' END 1 1 30] \<and>
      elems tln1 = elems ret) \<and>
   id' (hd [mkTimelineElem ''f'' BEGIN 0 0 10, mkTimelineElem ''g'' BEGIN 1 1 20,
            mkTimelineElem ''g'' END 1 1 30]) =
     myId \<lparr>myName = ''f'', myId = 0, done' = False\<rparr> \<and>
   (\<exists>ret m1 tln1.
      exportTimeline \<lparr>myName = ''f'', myId = 0, done' = False\<rparr> 40
        \<lparr>eventIdCounter = 2,
         elems = [mkTimelineElem ''f'' BEGIN 0 0 10, mkTimelineElem ''g'' BEGIN 1 1 20,
                  mkTimelineElem ''g'' END 1 1 30],
         lastDepth = 1\<rparr> = Inr (ret, m1, tln1) \<and>
      length (elems ret) = 4 \<and> elems tln1 = []) \<and>
   elems (thread_events new_thread) = [] \<and> lastDepth (thread_events new_thread) = 0 \<and>
   (\<exists>w. export_in_the_middle_test (\<lambda>n. 1000 + int n) new_thread = Inr ((5, 1), (6, 0), w))"
proof -
  let ?body = "[Scope ''g'' 1 [Scope ''h'' 2 [] False 3] True 4]"
  let ?T1 = "\<lparr>eventIdCounter = 2,
              elems = [mkTimelineElem ''f'' BEGIN 0 0 10, mkTimelineElem ''g'' BEGIN 1 1 20],
              lastDepth = 2\<rparr>"
  let ?T2 = "\<lparr>eventIdCounter = 2,
              elems = [mkTimelineElem ''f'' BEGIN 0 0 10, mkTimelineElem ''g'' BEGIN 1 1 20,
                       mkTimelineElem ''g'' END 1 1 30],
              lastDepth = 1\<rparr>"
  let ?G = "\<lparr>myName = ''g'', myId = 1, done' = False\<rparr>"
  let ?F = "\<lparr>myName = ''f'', myId = 0, done' = False\<rparr>"
  note inner = mid_chain_export_keeps_source [of newTimeline "''f''" 0 ?body 5
      ?T1 ?G 30 "''f''" 10 "''g''" 20 30 40 new_thread "\<lambda>n. 1000 + int n"]
  note outer = mid_chain_export_keeps_source [of newTimeline "''f''" 0 ?body 5
      ?T2 ?F 40 "''f''" 10 "''g''" 20 30 40 new_thread "\<lambda>n. 1000 + int n"]
  have pre: "elems newTimeline = []"
    "scopeCount (Scope ''f'' 0 ?body True 5) < 2 ^ 64"
    "elems (thread_events new_thread) = []" "lastDepth (thread_events new_thread) = 0"
    by (simp_all add: newTimeline_def new_thread_def)
  have a: "\<exists>xs ret src T'.
      runScope (Scope ''f'' 0 ?body True 5) newTimeline = Inr (xs @ [(ret, src)], T') \<and>
      length xs = 1 \<and> length (elems ret) = 6 \<and> lastDepth ret = 0 \<and>
      elems src = [] \<and> elems T' = []"
  proof -
    from inner pre obtain xs ret src T' where
      "runScope (Scope ''f'' 0 ?body True 5) newTimeline = Inr (xs @ [(ret, src)], T')"
      "length xs = exportsCount ?body"
      "length (elems ret) = 2 * scopeCount (Scope ''f'' 0 ?body True 5)"
      "lastDepth ret = lastDepth newTimeline" "elems src = []" "elems T' = []"
      by blast
    then show ?thesis
      by (intro exI [of _ xs] exI [of _ ret] exI [of _ src] exI [of _ T'])
         (simp add: newTimeline_def)
  qed
  have b: "\<exists>r1 s1 r2 s2 T'.
      runScope (Scope ''f'' 0 ?body True 5) newTimeline = Inr ([(r1, s1), (r2, s2)], T') \<and>
      length (elems r1) = 5 \<and> lastDepth r1 = 1 \<and> elems s1 = elems r1 \<and>
      length (elems r2) = 6 \<and> lastDepth r2 = 0 \<and> elems s2 = []"
    by (simp add: newTimeline_def TimelineMonitor_ctor_def issueId_def pushBegin_def
        exportTimeline_eq TimelineMonitor_dtor_def pushEnd_eq mkTimelineElem_def)
  have c: "id' (hd (elems ?T1)) \<noteq> myId ?G" "elems ?T1 \<noteq> []"
    "id' (hd (elems ?T2)) = myId ?F" "elems ?T2 \<noteq> []"
    by (simp_all add: mkTimelineElem_def)
  from inner c(1,2) have d: "\<exists>ret m1 tln1.
      exportTimeline ?G 30 ?T1 = Inr (ret, m1, tln1) \<and>
      elems ret = [mkTimelineElem ''f'' BEGIN 0 0 10, mkTimelineElem ''g'' BEGIN 1 1 20,
                   mkTimelineElem ''g'' END 1 1 30] \<and>
      elems tln1 = elems ret"
    by simp
  from outer c(3,4) have e: "\<exists>ret m1 tln1.
      exportTimeline ?F 40 ?T2 = Inr (ret, m1, tln1) \<and>
      length (elems ret) = 4 \<and> elems tln1 = []"
    by auto
  from inner pre(3,4) have f:
    "\<exists>w. export_in_the_middle_test (\<lambda>n. 1000 + int n) new_thread = Inr ((5, 1), (6, 0), w)"
    by blast
  from pre a b c d e f show ?thesis
    by simp
qed

subsection \<open>The nested-call test\<close>

lemma block_in_chain:
  assumes "chain_state c0 k n d w" "0 < k" "k < 2 ^ 64"
  shows "\<exists>w'. (case T_MONITOR_BLOCK clk name w of (m, w1) \<Rightarrow> scope_exit clk m w1) = Inr w' \<and>
           chain_state c0 (Suc k) (n + 2) d w'"
proof -
  have "eventIdCounter (thread_events w) \<noteq> c0"
    using assms issued_id_fresh [of k c0] by (simp add: chain_state_def)
  then show ?thesis
    using assms(1)
    by (cases "elems (thread_events w)")
       (simp_all add: chain_state_def T_MONITOR_BLOCK_def scope_exit_def TimelineMonitor_ctor_def
          TimelineMonitor_dtor_def issueId_def pushBegin_def pushEnd_eq Let_def
          mkTimelineElem_def add.commute)
qed

lemma func_1_loop_in_chain:
  assumes "chain_state c0 k n d w" "0 < k" "k + r < 2 ^ 64"
  shows "\<exists>w'. hierarchical_func_1_loop clk r w = Inr w' \<and>
           chain_state c0 (k + r) (n + 2 * r) d w'"
  using assms
proof (induction r arbitrary: k n w)
  case 0
  then show ?case by simp
next
  case (Suc r)
  from Suc.prems obtain w1 where
    w1: "(case T_MONITOR_BLOCK clk ''func_1_inner'' w of (m, w1) \<Rightarrow> scope_exit clk m w1) = Inr w1"
    and c1: "chain_state c0 (Suc k) (n + 2) d w1"
    using block_in_chain [of c0 k n d w clk "''func_1_inner''"] by auto
  from Suc.IH [OF c1] Suc.prems obtain w' where
    "hierarchical_func_1_loop clk r w1 = Inr w'" "chain_state c0 (Suc k + r) (n + 2 + 2 * r) d w'"
    by auto
  with w1 show ?case
    by (auto simp: split_def)
qed

lemma func_1_in_chain:
  assumes "chain_state c0 k n d w" "0 < k" "k + 1 + A < 2 ^ 64"
  shows "\<exists>w'. hierarchical_func_1 clk A w = Inr w' \<and>
           chain_state c0 (k + 1 + A) (n + 2 + 2 * A) d w'"
proof -
  obtain m w1 where mw1: "T_MONITOR_FUNC clk w = (m, w1)"
    by (cases "T_MONITOR_FUNC clk w")
  have fresh: "eventIdCounter (thread_events w) \<noteq> c0"
    using assms issued_id_fresh [of k c0] by (simp add: chain_state_def)
  have m: "myId m = eventIdCounter (thread_events w)" "\<not> done' m"
    using mw1
    by (auto simp: T_MONITOR_FUNC_def T_MONITOR_BLOCK_def TimelineMonitor_ctor_def issueId_def
        Let_def)
  have c1: "chain_state c0 (Suc k) (Suc n) (d + 1) w1"
    using mw1 assms(1)
    by (cases "elems (thread_events w)")
       (auto simp: chain_state_def T_MONITOR_FUNC_def T_MONITOR_BLOCK_def TimelineMonitor_ctor_def
          issueId_def pushBegin_def Let_def add.commute)
  from func_1_loop_in_chain [OF c1, of A clk] assms obtain w2 where
    w2: "hierarchical_func_1_loop clk A w1 = Inr w2"
    and c2: "chain_state c0 (Suc k + A) (Suc n + 2 * A) (d + 1) w2"
    by auto
  have "\<exists>w'. scope_exit clk m w2 = Inr w' \<and> chain_state c0 (k + 1 + A) (n + 2 + 2 * A) d w'"
    using c2 m fresh
    by (cases "elems (thread_events w2)")
       (simp_all add: chain_state_def scope_exit_def TimelineMonitor_dtor_def pushEnd_eq
          mkTimelineElem_def)
  then show ?thesis
    using mw1 w2 by (simp add: hierarchical_func_1_def)
qed

lemma func_2_loop_in_chain:
  assumes "chain_state c0 k n d w" "0 < k" "k + r * (1 + A) < 2 ^ 64"
  shows "\<exists>w'. hierarchical_func_2_loop clk A r w = Inr w' \<and>
           chain_state c0 (k + r * (1 + A)) (n + r * (2 + 2 * A)) d w'"
  using assms
proof (induction r arbitrary: k n w)
  case 0
  then show ?case by simp
next
  case (Suc r)
  from Suc.prems have "k + 1 + A < 2 ^ 64" by simp
  from func_1_in_chain [OF Suc.prems(1) Suc.prems(2) this, of clk] obtain w1 where
    w1: "hierarchical_func_1 clk A w = Inr w1"
    and c1: "chain_state c0 (k + 1 + A) (n + 2 + 2 * A) d w1"
    by auto
  have "0 < k + 1 + A" "k + 1 + A + r * (1 + A) < 2 ^ 64"
    using Suc.prems by simp_all
  from Suc.IH [OF c1 this] obtain w' where
    "hierarchical_func_2_loop clk A r w1 = Inr w'"
    "chain_state c0 (k + 1 + A + r * (1 + A)) (n + 2 + 2 * A + r * (2 + 2 * A)) d w'"
    by auto
  with w1 show ?case
    by (auto simp: algebra_simps)
qed

lemma hierarchical_func_2_in_chain:
  assumes "elems (thread_events w) = []" "lastDepth (thread_events w) = 0"
    and "2 * (1 + B + A * B) < (2::nat) ^ 64"
  shows "\<exists>ret w'. hierarchical_func_2 clk A B w = Inr (ret, w') \<and>
           length (getElems ret) = 2 * (1 + B + A * B) \<and>
           getDepth ret = 0 \<and>
           elems (thread_events w') = [] \<and>
           lastDepth (thread_events w') = 0"
proof -
  define c0 where "c0 = eventIdCounter (thread_events w)"
  obtain m w1 where mw1: "T_MONITOR_FUNC clk w = (m, w1)"
    by (cases "T_MONITOR_FUNC clk w")
  have m: "myId m = c0" "\<not> done' m"
    using mw1
    by (auto simp: c0_def T_MONITOR_FUNC_def T_MONITOR_BLOCK_def TimelineMonitor_ctor_def
        issueId_def Let_def)
  have c1: "chain_state c0 1 1 1 w1"
    using mw1 assms(1,2)
    by (auto simp: c0_def chain_state_def T_MONITOR_FUNC_def T_MONITOR_BLOCK_def
        TimelineMonitor_ctor_def issueId_def pushBegin_def Let_def mkTimelineElem_def)
  have "1 + B * (1 + A) < (2::nat) ^ 64"
    using assms(3) by (simp add: algebra_simps)
  from func_2_loop_in_chain [OF c1 _ this, of clk] obtain w2 where
    w2: "hierarchical_func_2_loop clk A B w1 = Inr w2"
    and c2: "chain_state c0 (1 + B * (1 + A)) (1 + B * (2 + 2 * A)) 1 w2"
    by auto
  have "\<exists>ret m1 w3. T_MONITOR_EXPORT clk m w2 = Inr (ret, m1, w3) \<and> done' m1 \<and>
          length (elems ret) = 2 + B * (2 + 2 * A) \<and> lastDepth ret = 0 \<and>
          elems (thread_events w3) = [] \<and> lastDepth (thread_events w3) = 0"
    using c2 m
    by (cases "elems (thread_events w2)")
       (simp_all add: chain_state_def T_MONITOR_EXPORT_def exportTimeline_def pushEndAndExport_eq
          mkTimelineElem_def)
  then obtain ret m1 w3 where
    ex: "T_MONITOR_EXPORT clk m w2 = Inr (ret, m1, w3)" "done' m1"
      "length (elems ret) = 2 + B * (2 + 2 * A)" "lastDepth ret = 0"
      "elems (thread_events w3) = []" "lastDepth (thread_events w3) = 0"
    by blast
  have "scope_exit clk m1 w3 = Inr w3"
    using ex(2) by (simp add: scope_exit_def TimelineMonitor_dtor_def)
  with mw1 w2 ex show ?thesis
    by (simp add: hierarchical_func_2_def getElems_def getDepth_def algebra_simps)
qed

text \<open>
  Claim C1, as the specification words it: with \<open>A = 5\<close> and \<open>B = 10\<close> the exported
  copy would hold 330 events. It does not: the test's own formula
  \<open>(1 + B + A * B) * 2\<close> is 122 there, and 122 events is what the export returns.
\<close>

theorem hierarchical_330_counterexample:
  "\<not> (\<exists>ret w. hierarchical_func_2 (\<lambda>n. int n) 5 10 new_thread = Inr (ret, w) \<and>
        length (getElems ret) = 330)"
  using hierarchical_func_2_in_chain [of new_thread 10 5 "\<lambda>n. int n"]
  by (auto simp: new_thread_def newTimeline_def)

text \<open>
  Claim C1, amended. On a thread whose timeline is empty with nesting counter 0, for
  every clock and all \<open>A\<close> and \<open>B\<close> whose event count \<open>2 * (1 + B + A * B)\<close> is below
  \<open>2 ^ 64\<close>: the outermost function returns, the copy it exports holds exactly
  \<open>2 * (1 + B + A * B)\<close> events and has depth 0, and the thread's timeline is empty again.
  With \<open>A = 5\<close> and \<open>B = 10\<close>, as in \<^verbatim>\<open>hierarchical_test\<close>, that is 122 events at depth 0.
  (The bound keeps the 64-bit ids issued inside the chain apart from the id of the
  outermost scope.)
\<close>

theorem hierarchical_export_count:
  "(elems (thread_events w) = [] \<and> lastDepth (thread_events w) = 0 \<and>
    2 * (1 + B + A * B) < (2::nat) ^ 64 \<longrightarrow>
      (\<exists>ret w'. hierarchical_func_2 clk A B w = Inr (ret, w') \<and>
         length (getElems ret) = 2 * (1 + B + A * B) \<and>
         getDepth ret = 0 \<and>
         elems (thread_events w') = [] \<and>
         lastDepth (thread_events w') = 0)) \<and>
   (elems (thread_events w) = [] \<and> lastDepth (thread_events w) = 0 \<longrightarrow>
      hierarchical_test clk w = Inr (122, 0))"
proof -
  have "hierarchical_test clk w = Inr (122, 0)"
    if "elems (thread_events w) = []" "lastDepth (thread_events w) = 0"
    using hierarchical_func_2_in_chain [of w 10 5 clk] that
    by (auto simp: hierarchical_test_def)
  then show ?thesis
    using hierarchical_func_2_in_chain [of w B A clk] by blast
qed

theorem hierarchical_export_count_witness:
  "elems (thread_events new_thread) = [] \<and> lastDepth (thread_events new_thread) = 0 \<and>
   2 * (1 + 10 + 5 * 10) < (2::nat) ^ 64 \<and>
   (\<exists>ret w'. hierarchical_func_2 (\<lambda>n. int n) 5 10 new_thread = Inr (ret, w') \<and>
      length (getElems ret) = 122 \<and> getDepth ret = 0 \<and> elems (thread_events w') = []) \<and>
   hierarchical_test (\<lambda>n. int n) new_thread = Inr (122, 0)"
  using hierarchical_export_count [of new_thread 10 5 "\<lambda>n. int n"]
  by (auto simp: new_thread_def newTimeline_def)

section \<open>Properties of well-nested call sequences\<close>

lemma pairsAgree_openAfter: "pairsAgree opened es = (openAfter opened es \<noteq> None)"
  by (induction es arbitrary: opened) (auto split: Type.splits list.splits)

lemma openAfter_snoc:
  "openAfter opened (es @ [e]) =
     (case openAfter opened es of None \<Rightarrow> None | Some opened1 \<Rightarrow> closeStep e opened1)"
  by (induction es arbitrary: opened) (auto split: option.splits)

lemma elemKey_mk: "elemKey (mkTimelineElem name t i d now) = (t, i, name, now)"
  by (simp add: elemKey_def mkTimelineElem_def)

lemma exec_PushEnd_keep:
  assumes "elems tln \<noteq> []" "id' (hd (elems tln)) \<noteq> i"
  shows "exec (PushEnd name i now) tln =
           Inr (tln\<lparr>elems := elems tln @ [mkTimelineElem name END i (lastDepth tln - 1) now],
                   lastDepth := lastDepth tln - 1\<rparr>)"
  using assms by (cases "elems tln") (simp_all add: pushEnd_eq)

lemma exec_PushEnd_reset:
  assumes "elems tln = [] \<or> id' (hd (elems tln)) = i"
  shows "exec (PushEnd name i now) tln = Inr (tln\<lparr>elems := [], lastDepth := lastDepth tln - 1\<rparr>)"
  using assms by (cases "elems tln") (auto simp: pushEnd_eq mkTimelineElem_def)

lemma exec_PushBegin:
  "exec (PushBegin name i now) tln =
     Inr (tln\<lparr>elems := elems tln @ [mkTimelineElem name BEGIN i (lastDepth tln) now],
             lastDepth := lastDepth tln + 1\<rparr>)"
  by (simp add: pushBegin_def)

lemma run_stored_agree_from:
  assumes "wellNestedFrom (map id' opened) cs" "openDepths (lastDepth tln) opened"
    and "elems tln = pre @ es" "openAfter [] es = Some inner" "opened = inner @ rest"
    and "(pre \<noteq> [] \<and> rest = []) \<or> (pre = [] \<and> (es = [] \<or> (inner \<noteq> [] \<and> hd es = last inner)))"
  shows "\<exists>tln1 es1 inner1. run cs tln = Inr tln1 \<and>
           (elems tln1 = pre @ es1 \<or> elems tln1 = es1) \<and>
           openAfter [] es1 = Some inner1"
  using assms
proof (induction cs arbitrary: tln opened pre es inner rest)
  case Nil
  then show ?case by auto
next
  case (Cons c cs)
  show ?case
  proof (cases c)
    case (PushBegin name i now)
    let ?e = "mkTimelineElem name BEGIN i (lastDepth tln) now"
    let ?t = "tln\<lparr>elems := elems tln @ [?e], lastDepth := lastDepth tln + 1\<rparr>"
    have inner_nil: "es = [] \<Longrightarrow> inner = []"
      using Cons.prems(4) by simp
    have a: "wellNestedFrom (map id' (?e # opened)) cs"
      using Cons.prems(1) PushBegin by (simp add: mkTimelineElem_def)
    have b: "openDepths (lastDepth ?t) (?e # opened)"
      using Cons.prems(2) by (simp add: mkTimelineElem_def)
    have c: "elems ?t = pre @ (es @ [?e])"
      using Cons.prems(3) by simp
    have d: "openAfter [] (es @ [?e]) = Some (?e # inner)"
      using Cons.prems(4) by (simp add: openAfter_snoc mkTimelineElem_def)
    have e: "?e # opened = (?e # inner) @ rest"
      using Cons.prems(5) by simp
    have f: "(pre \<noteq> [] \<and> rest = []) \<or>
        (pre = [] \<and> (es @ [?e] = [] \<or> (?e # inner \<noteq> [] \<and> hd (es @ [?e]) = last (?e # inner))))"
      using Cons.prems(6) inner_nil by (cases es) auto
    from Cons.IH [OF a b c d e f] show ?thesis
      using PushBegin by (simp add: exec_PushBegin del: exec.simps)
  next
    case (PushEnd name i now)
    from Cons.prems(1) PushEnd obtain b opened' where
      opened: "opened = b # opened'" and b: "id' b = i"
      and wn: "wellNestedFrom (map id' opened') cs"
      by (cases opened) auto
    have db: "depth b = lastDepth tln - 1" and od: "openDepths (lastDepth tln - 1) opened'"
      using Cons.prems(2) opened by simp_all
    show ?thesis
    proof (cases "elems tln = [] \<or> id' (hd (elems tln)) = i")
      case True
      let ?t = "tln\<lparr>elems := [], lastDepth := lastDepth tln - 1\<rparr>"
      have "\<exists>tln1 es1 inner1. run cs ?t = Inr tln1 \<and>
              (elems tln1 = [] @ es1 \<or> elems tln1 = es1) \<and> openAfter [] es1 = Some inner1"
        by (rule Cons.IH [of opened' ?t "[]" "[]" "[]" opened']) (use wn od in simp_all)
      then show ?thesis
        using PushEnd True exec_PushEnd_reset [of tln i name now]
        by (auto simp del: exec.simps)
    next
      case False
      then have ne: "elems tln \<noteq> []" and hd_id: "id' (hd (elems tln)) \<noteq> i" by simp_all
      let ?e = "mkTimelineElem name END i (lastDepth tln - 1) now"
      let ?t = "tln\<lparr>elems := elems tln @ [?e], lastDepth := lastDepth tln - 1\<rparr>"
      have inner_ne: "inner \<noteq> []"
      proof (cases "pre = []")
        case True
        with Cons.prems(3,6) ne show ?thesis by auto
      next
        case False
        with Cons.prems(5,6) opened show ?thesis by auto
      qed
      with Cons.prems(5) opened obtain inner' where inner': "inner = b # inner'"
        by (cases inner) auto
      have c: "elems ?t = pre @ (es @ [?e])"
        using Cons.prems(3) by simp
      have d: "openAfter [] (es @ [?e]) = Some inner'"
        using Cons.prems(4) inner' b db by (simp add: openAfter_snoc mkTimelineElem_def)
      have e: "opened' = inner' @ rest"
        using Cons.prems(5) opened inner' by simp
      have f: "(pre \<noteq> [] \<and> rest = []) \<or>
          (pre = [] \<and> (es @ [?e] = [] \<or> (inner' \<noteq> [] \<and> hd (es @ [?e]) = last inner')))"
      proof (cases "pre = []")
        case False
        with Cons.prems(6) show ?thesis by auto
      next
        case True
        with Cons.prems(3,6) ne have es: "es \<noteq> []" "hd es = last inner"
          "elems tln = es" by auto
        have "inner' \<noteq> []"
        proof
          assume "inner' = []"
          with inner' es(2) have "hd es = b" by simp
          with b hd_id es(3) show False by simp
        qed
        with True es inner' show ?thesis by simp
      qed
      have "\<exists>tln1 es1 inner1. run cs ?t = Inr tln1 \<and>
              (elems tln1 = pre @ es1 \<or> elems tln1 = es1) \<and> openAfter [] es1 = Some inner1"
        by (rule Cons.IH [of opened' ?t pre "es @ [?e]" inner' rest])
           (use wn od c d e f in simp_all)
      then show ?thesis
        using PushEnd ne hd_id by (simp add: exec_PushEnd_keep del: exec.simps)
    qed
  qed
qed

lemma run_chain_stored:
  assumes "wellNestedFrom (map id' opened) (cs @ later)" "openDepths (lastDepth tln) opened"
    and "openAfter [] (elems tln) = Some opened"
    and "elems tln \<noteq> []" "id' (hd (elems tln)) = i0" "\<forall>c\<in>set cs. callId c \<noteq> i0"
  shows "\<exists>tln1 opened1. run cs tln = Inr tln1 \<and>
           map elemKey (elems tln1) = map elemKey (elems tln) @ map callKey cs \<and>
           openAfter [] (elems tln1) = Some opened1 \<and>
           openDepths (lastDepth tln1) opened1 \<and>
           wellNestedFrom (map id' opened1) later \<and>
           hd (elems tln1) = hd (elems tln)"
  using assms
proof (induction cs arbitrary: tln opened)
  case Nil
  then show ?case by simp
next
  case (Cons c cs)
  show ?case
  proof (cases c)
    case (PushBegin name i now)
    let ?e = "mkTimelineElem name BEGIN i (lastDepth tln) now"
    let ?t = "tln\<lparr>elems := elems tln @ [?e], lastDepth := lastDepth tln + 1\<rparr>"
    have a: "wellNestedFrom (map id' (?e # opened)) (cs @ later)"
      using Cons.prems(1) PushBegin by (simp add: mkTimelineElem_def)
    have b: "openDepths (lastDepth ?t) (?e # opened)"
      using Cons.prems(2) by (simp add: mkTimelineElem_def)
    have c: "openAfter [] (elems ?t) = Some (?e # opened)"
      using Cons.prems(3) by (simp add: openAfter_snoc mkTimelineElem_def)
    have d: "elems ?t \<noteq> []" "id' (hd (elems ?t)) = i0" "\<forall>c\<in>set cs. callId c \<noteq> i0"
      using Cons.prems(4,5,6) by simp_all
    from Cons.IH [OF a b c d] obtain tln1 opened1 where
      "run cs ?t = Inr tln1"
      "map elemKey (elems tln1) = map elemKey (elems ?t) @ map callKey cs"
      "openAfter [] (elems tln1) = Some opened1" "openDepths (lastDepth tln1) opened1"
      "wellNestedFrom (map id' opened1) later" "hd (elems tln1) = hd (elems ?t)"
      by blast
    then show ?thesis
      using PushBegin Cons.prems(4)
      by (simp add: exec_PushBegin elemKey_mk del: exec.simps)
  next
    case (PushEnd name i now)
    from Cons.prems(1) PushEnd obtain b opened' where
      opened: "opened = b # opened'" and b: "id' b = i"
      and wn: "wellNestedFrom (map id' opened') (cs @ later)"
      by (cases opened) auto
    have db: "depth b = lastDepth tln - 1" and od: "openDepths (lastDepth tln - 1) opened'"
      using Cons.prems(2) opened by simp_all
    have hd_id: "id' (hd (elems tln)) \<noteq> i"
      using Cons.prems(5,6) PushEnd by auto
    let ?e = "mkTimelineElem name END i (lastDepth tln - 1) now"
    let ?t = "tln\<lparr>elems := elems tln @ [?e], lastDepth := lastDepth tln - 1\<rparr>"
    have c: "openAfter [] (elems ?t) = Some opened'"
      using Cons.prems(3) opened b db by (simp add: openAfter_snoc mkTimelineElem_def)
    have d: "elems ?t \<noteq> []" "id' (hd (elems ?t)) = i0" "\<forall>c\<in>set cs. callId c \<noteq> i0"
      using Cons.prems(4,5,6) by simp_all
    have "\<exists>tln1 opened1. run cs ?t = Inr tln1 \<and>
           map elemKey (elems tln1) = map elemKey (elems ?t) @ map callKey cs \<and>
           openAfter [] (elems tln1) = Some opened1 \<and>
           openDepths (lastDepth tln1) opened1 \<and>
           wellNestedFrom (map id' opened1) later \<and>
           hd (elems tln1) = hd (elems ?t)"
      by (rule Cons.IH [of opened' ?t]) (use wn od c d in simp_all)
    then obtain tln1 opened1 where
      "run cs ?t = Inr tln1"
      "map elemKey (elems tln1) = map elemKey (elems ?t) @ map callKey cs"
      "openAfter [] (elems tln1) = Some opened1" "openDepths (lastDepth tln1) opened1"
      "wellNestedFrom (map id' opened1) later" "hd (elems tln1) = hd (elems ?t)"
      by blast
    then show ?thesis
      using PushEnd Cons.prems(4) hd_id
      by (simp add: exec_PushEnd_keep elemKey_mk del: exec.simps)
  qed
qed

text \<open>
  Claim C6. \<^verbatim>\<open>pushBegin\<close> stores a Begin event whose depth is the value the nesting
  counter had before its increment; \<^verbatim>\<open>pushEnd\<close> stores (unless its reset empties the
  sequence) an End event whose depth is the value the counter has after its decrement.
  For every Timeline and every well-nested sequence of calls on it (every \<^verbatim>\<open>pushEnd\<close>
  closes the most recently opened Begin still open, with its id), whatever the ids, all
  calls return, and the events the Timeline then holds beyond those it started with (or
  all it holds, when a reset has emptied it on the way) have every End event at the id
  and the depth of the Begin event it closes. On a Timeline that starts empty, when no
  call inside the outermost scope uses the outermost id, nothing is cleared before the
  outermost scope closes: the stored sequence holds
  the event of every call, in order, with Begin/End pairs of equal depth, the first
  event at the depth the counter started from; and when the outermost scope is then
  closed, the copy \<^verbatim>\<open>pushEndAndExport\<close> returns holds the whole chain with every pair at
  equal depth, while \<^verbatim>\<open>pushEnd\<close> leaves the Timeline empty.
\<close>

theorem matched_pairs_share_depth:
  "pushBegin name i now tln =
     tln\<lparr>elems := elems tln @ [mkTimelineElem name BEGIN i (lastDepth tln) now],
         lastDepth := lastDepth tln + 1\<rparr> \<and>
   pushEnd name i now tln =
     Inr (tln\<lparr>elems := (if elems tln = [] \<or> id' (hd (elems tln)) = i then []
                        else elems tln @ [mkTimelineElem name END i (lastDepth tln - 1) now]),
             lastDepth := lastDepth tln - 1\<rparr>) \<and>
   (wellNested cs \<longrightarrow>
      (\<exists>tln1 es. run cs tln = Inr tln1 \<and>
         (elems tln1 = elems tln @ es \<or> elems tln1 = es) \<and> pairsAgree [] es)) \<and>
   (wellNested (PushBegin n0 i0 t0 # body) \<and> elems tln = [] \<and> (\<forall>c\<in>set body. callId c \<noteq> i0) \<longrightarrow>
      (\<exists>tln1. run (PushBegin n0 i0 t0 # body) tln = Inr tln1 \<and>
         map elemKey (elems tln1) = map callKey (PushBegin n0 i0 t0 # body) \<and>
         pairsAgree [] (elems tln1) \<and>
         depth (hd (elems tln1)) = lastDepth tln)) \<and>
   (wellNested (PushBegin n0 i0 t0 # body @ [PushEnd n1 i0 t1]) \<and> elems tln = [] \<and>
    (\<forall>c\<in>set body. callId c \<noteq> i0) \<longrightarrow>
      (\<exists>tln1 ret tln2. run (PushBegin n0 i0 t0 # body) tln = Inr tln1 \<and>
         pushEndAndExport n1 i0 t1 tln1 = Inr (ret, tln2) \<and>
         run (PushBegin n0 i0 t0 # body @ [PushEnd n1 i0 t1]) tln = Inr tln2 \<and>
         map elemKey (elems ret) = map callKey (PushBegin n0 i0 t0 # body @ [PushEnd n1 i0 t1]) \<and>
         pairsAgree [] (elems ret) \<and>
         depth (last (elems ret)) = lastDepth tln2 \<and>
         elems tln2 = []))"
proof -
  have pb: "pushBegin name i now tln =
     tln\<lparr>elems := elems tln @ [mkTimelineElem name BEGIN i (lastDepth tln) now],
         lastDepth := lastDepth tln + 1\<rparr>"
    by (simp add: pushBegin_def)
  have pe: "pushEnd name i now tln =
     Inr (tln\<lparr>elems := (if elems tln = [] \<or> id' (hd (elems tln)) = i then []
                        else elems tln @ [mkTimelineElem name END i (lastDepth tln - 1) now]),
             lastDepth := lastDepth tln - 1\<rparr>)"
    by (cases "elems tln") (simp_all add: pushEnd_eq mkTimelineElem_def)
  have any: "\<exists>tln1 es. run cs tln = Inr tln1 \<and>
      (elems tln1 = elems tln @ es \<or> elems tln1 = es) \<and> pairsAgree [] es"
    if "wellNested cs"
  proof -
    have "\<exists>tln1 es1 inner1. run cs tln = Inr tln1 \<and>
        (elems tln1 = elems tln @ es1 \<or> elems tln1 = es1) \<and>
        openAfter [] es1 = Some inner1"
      by (rule run_stored_agree_from [of "[]" cs tln "elems tln" "[]" "[]" "[]"])
         (use that in \<open>auto simp: wellNested_def\<close>)
    then show ?thesis
      by (auto simp: pairsAgree_openAfter)
  qed
  have chain: "\<exists>tln1 opened1. run (PushBegin n0 i0 t0 # body) tln = Inr tln1 \<and>
         map elemKey (elems tln1) = map callKey (PushBegin n0 i0 t0 # body) \<and>
         openAfter [] (elems tln1) = Some opened1 \<and>
         openDepths (lastDepth tln1) opened1 \<and>
         wellNestedFrom (map id' opened1) later \<and>
         hd (elems tln1) = mkTimelineElem n0 BEGIN i0 (lastDepth tln) t0"
    if wn: "wellNested (PushBegin n0 i0 t0 # body @ later)" and emp: "elems tln = []"
      and ids: "\<forall>c\<in>set body. callId c \<noteq> i0"
    for later
  proof -
    let ?e = "mkTimelineElem n0 BEGIN i0 (lastDepth tln) t0"
    let ?t = "tln\<lparr>elems := elems tln @ [?e], lastDepth := lastDepth tln + 1\<rparr>"
    have "\<exists>tln1 opened1. run body ?t = Inr tln1 \<and>
           map elemKey (elems tln1) = map elemKey (elems ?t) @ map callKey body \<and>
           openAfter [] (elems tln1) = Some opened1 \<and>
           openDepths (lastDepth tln1) opened1 \<and>
           wellNestedFrom (map id' opened1) later \<and>
           hd (elems tln1) = hd (elems ?t)"
      by (rule run_chain_stored [of "[?e]" body later ?t i0])
         (use wn emp ids in \<open>simp_all add: wellNested_def mkTimelineElem_def\<close>)
    then show ?thesis
      using emp by (simp add: exec_PushBegin elemKey_mk del: exec.simps)
  qed
  have open_chain: "\<exists>tln1. run (PushBegin n0 i0 t0 # body) tln = Inr tln1 \<and>
         map elemKey (elems tln1) = map callKey (PushBegin n0 i0 t0 # body) \<and>
         pairsAgree [] (elems tln1) \<and>
         depth (hd (elems tln1)) = lastDepth tln"
    if "wellNested (PushBegin n0 i0 t0 # body)" "elems tln = []"
      "\<forall>c\<in>set body. callId c \<noteq> i0"
    using chain [of "[]"] that
    by (auto simp: pairsAgree_openAfter mkTimelineElem_def)
  have closed_chain: "\<exists>tln1 ret tln2. run (PushBegin n0 i0 t0 # body) tln = Inr tln1 \<and>
         pushEndAndExport n1 i0 t1 tln1 = Inr (ret, tln2) \<and>
         run (PushBegin n0 i0 t0 # body @ [PushEnd n1 i0 t1]) tln = Inr tln2 \<and>
         map elemKey (elems ret) = map callKey (PushBegin n0 i0 t0 # body @ [PushEnd n1 i0 t1]) \<and>
         pairsAgree [] (elems ret) \<and>
         depth (last (elems ret)) = lastDepth tln2 \<and>
         elems tln2 = []"
    if wn: "wellNested (PushBegin n0 i0 t0 # body @ [PushEnd n1 i0 t1])" and emp: "elems tln = []"
      and ids: "\<forall>c\<in>set body. callId c \<noteq> i0"
  proof -
    from chain [OF wn emp ids] obtain tln1 opened1 where
      r: "run (PushBegin n0 i0 t0 # body) tln = Inr tln1"
      and k: "map elemKey (elems tln1) = map callKey (PushBegin n0 i0 t0 # body)"
      and oa: "openAfter [] (elems tln1) = Some opened1"
      and od: "openDepths (lastDepth tln1) opened1"
      and w1: "wellNestedFrom (map id' opened1) [PushEnd n1 i0 t1]"
      and h: "hd (elems tln1) = mkTimelineElem n0 BEGIN i0 (lastDepth tln) t0"
      by blast
    from w1 obtain b rest where o1: "opened1 = b # rest" and b: "id' b = i0"
      by (cases opened1) auto
    from od o1 have db: "depth b = lastDepth tln1 - 1" by simp
    from k have ne: "elems tln1 \<noteq> []" by auto
    let ?e = "mkTimelineElem n1 END i0 (lastDepth tln1 - 1) t1"
    have hid: "id' (hd (elems tln1 @ [?e])) = i0"
      using ne h by (simp add: mkTimelineElem_def)
    have agree: "openAfter [] (elems tln1 @ [?e]) = Some rest"
      using oa o1 b db by (simp add: openAfter_snoc mkTimelineElem_def)
    have run_all: "run (PushBegin n0 i0 t0 # body @ [PushEnd n1 i0 t1]) tln =
        bind (run (PushBegin n0 i0 t0 # body) tln) (\<lambda>t. pushEnd n1 i0 t1 t)"
    proof -
      have "run (xs @ [PushEnd n1 i0 t1]) t =
          bind (run xs t) (\<lambda>t. pushEnd n1 i0 t1 t)" for xs t
        by (induction xs arbitrary: t) (auto simp: bind_def split: sum.splits)
      from this [of "PushBegin n0 i0 t0 # body" tln] show ?thesis by simp
    qed
    show ?thesis
      using r k hid agree run_all
      by (simp add: pushEndAndExport_eq pushEnd_eq pairsAgree_openAfter elemKey_mk
          del: run.simps)
         (simp add: mkTimelineElem_def)
  qed
  from pb pe any open_chain closed_chain show ?thesis by blast
qed

theorem matched_pairs_share_depth_witness:
  "wellNested [PushBegin ''f'' 0 10, PushBegin ''g'' 1 20, PushEnd ''g'' 1 30,
               PushBegin ''h'' 2 40, PushEnd ''h'' 2 50, PushEnd ''f'' 0 60] \<and>
   elems newTimeline = [] \<and>
   callId (PushBegin ''g'' 1 20) \<noteq> 0 \<and> callId (PushEnd ''g'' 1 30) \<noteq> 0 \<and>
   callId (PushBegin ''h'' 2 40) \<noteq> 0 \<and> callId (PushEnd ''h'' 2 50) \<noteq> 0 \<and>
   run [PushBegin ''f'' 0 10, PushBegin ''g'' 1 20, PushEnd ''g'' 1 30,
        PushBegin ''h'' 2 40, PushEnd ''h'' 2 50] newTimeline =
     Inr \<lparr>eventIdCounter = 0,
          elems = [mkTimelineElem ''f'' BEGIN 0 0 10, mkTimelineElem ''g'' BEGIN 1 1 20,
                   mkTimelineElem ''g'' END 1 1 30, mkTimelineElem ''h'' BEGIN 2 1 40,
                   mkTimelineElem ''h'' END 2 1 50],
          lastDepth = 1\<rparr> \<and>
   pairsAgree []
     [mkTimelineElem ''f'' BEGIN 0 0 10, mkTimelineElem ''g'' BEGIN 1 1 20,
      mkTimelineElem ''g'' END 1 1 30, mkTimelineElem ''h'' BEGIN 2 1 40,
      mkTimelineElem ''h'' END 2 1 50, mkTimelineElem ''f'' END 0 0 60] \<and>
   run [PushBegin ''f'' 0 10, PushBegin ''g'' 1 20, PushEnd ''g'' 1 30,
        PushBegin ''h'' 2 40, PushEnd ''h'' 2 50, PushEnd ''f'' 0 60] newTimeline =
     Inr \<lparr>eventIdCounter = 0, elems = [], lastDepth = 0\<rparr>"
  using matched_pairs_share_depth [of "''f''" 0 10 newTimeline
      "[PushBegin ''f'' 0 10, PushBegin ''g'' 1 20, PushEnd ''g'' 1 30,
        PushBegin ''h'' 2 40, PushEnd ''h'' 2 50, PushEnd ''f'' 0 60]"
      "''f''" 0 10
      "[PushBegin ''g'' 1 20, PushEnd ''g'' 1 30, PushBegin ''h'' 2 40, PushEnd ''h'' 2 50]"
      "''f''" 60]
  by (simp add: wellNested_def newTimeline_def pushBegin_def pushEnd_eq mkTimelineElem_def)

section \<open>Properties of the renderer\<close>

lemma digit_not_newline:
  assumes "d < 10"
  shows "''0123456789'' ! d \<noteq> CHR 0x0A"
proof -
  have "''0123456789'' ! d \<in> set ''0123456789''"
    using assms by (intro nth_mem) simp
  then show ?thesis by auto
qed

lemma showDigits_no_newline: "CHR 0x0A \<notin> set (showDigits n)"
proof (induction n rule: showDigits.induct)
  case (1 n)
  show ?case
  proof (cases "n < 10")
    case True
    then show ?thesis
      using digit_not_newline [of n] by (subst showDigits.simps) simp
  next
    case False
    have "n mod 10 < 10" by simp
    then have "''0123456789'' ! (n mod 10) \<noteq> CHR 0x0A"
      by (rule digit_not_newline)
    with False "1.IH" show ?thesis
      by (subst showDigits.simps) simp
  qed
qed

lemma find_append_case:
  "find P (xs @ ys) = (case find P xs of None \<Rightarrow> find P ys | Some x \<Rightarrow> Some x)"
  by (induction xs) auto

lemma earlierBegin_snoc:
  "earlierBegin (earlier @ [e]) =
     (if type e = BEGIN then
        (case earlierBegin earlier (id' e) of
           None \<Rightarrow> (earlierBegin earlier)(id' e \<mapsto> e)
         | Some _ \<Rightarrow> earlierBegin earlier)
      else earlierBegin earlier)"
  by (rule ext) (auto simp: earlierBegin_def find_append_case split: option.splits)

lemma joinLines_snoc:
  "joinLines (ls @ [l]) = (if ls = [] then l else joinLines ls @ endl @ l)"
  by (induction ls rule: joinLines.induct) auto

lemma toString_step_lineOf:
  "toString_step e (joinLines ls, earlierBegin earlier, ls \<noteq> []) =
     (joinLines (ls @ lineOf earlier e), earlierBegin (earlier @ [e]), ls @ lineOf earlier e \<noteq> [])"
proof (cases "type e")
  case BEGIN
  then show ?thesis
    by (simp add: toString_step_def lineOf_def earlierBegin_snoc joinLines_snoc beginLine_def
        Let_def)
next
  case END
  then show ?thesis
    by (cases "earlierBegin earlier (id' e)")
       (simp_all add: toString_step_def lineOf_def earlierBegin_snoc joinLines_snoc endLine_def
          Let_def)
qed

lemma toString_loop_specLines:
  "toString_loop es (joinLines ls, earlierBegin earlier, ls \<noteq> []) =
     (joinLines (ls @ specLines earlier es), earlierBegin (earlier @ es),
      ls @ specLines earlier es \<noteq> [])"
proof (induction es arbitrary: ls earlier)
  case Nil
  show ?case by simp
next
  case (Cons e es)
  have "toString_loop (e # es) (joinLines ls, earlierBegin earlier, ls \<noteq> []) =
        toString_loop es (joinLines (ls @ lineOf earlier e), earlierBegin (earlier @ [e]),
          ls @ lineOf earlier e \<noteq> [])"
    by (simp add: toString_step_lineOf)
  also have "\<dots> = (joinLines ((ls @ lineOf earlier e) @ specLines (earlier @ [e]) es),
                   earlierBegin ((earlier @ [e]) @ es),
                   (ls @ lineOf earlier e) @ specLines (earlier @ [e]) es \<noteq> [])"
    by (rule Cons.IH)
  finally show ?case by simp
qed

lemma toString_eq_specLines: "toString src = joinLines (specLines [] (elems src))"
proof -
  have "earlierBegin [] = Map.empty"
    by (rule ext) (simp add: earlierBegin_def)
  then show ?thesis
    using toString_loop_specLines [of "elems src" "[]" "[]"]
    by (simp add: toString_def getElems_def)
qed

lemma length_lineOf: "length (lineOf earlier e) = (if orphanEnd earlier e then 0 else 1)"
  by (cases "type e"; cases "earlierBegin earlier (id' e)")
     (simp_all add: lineOf_def orphanEnd_def)

lemma length_specLines: "length (specLines earlier es) + orphans earlier es = length es"
  by (induction es arbitrary: earlier) (simp_all add: length_lineOf)

lemma specLines_append:
  "specLines earlier (es1 @ es2) = specLines earlier es1 @ specLines (earlier @ es1) es2"
  by (induction es1 arbitrary: earlier) simp_all

lemma specLines_cong:
  "earlierBegin a = earlierBegin b \<Longrightarrow> specLines a es = specLines b es"
proof (induction es arbitrary: a b)
  case Nil
  show ?case by simp
next
  case (Cons e es)
  have "earlierBegin (a @ [e]) = earlierBegin (b @ [e])"
    unfolding earlierBegin_snoc Cons.prems by (rule refl)
  then have "specLines (a @ [e]) es = specLines (b @ [e]) es"
    by (rule Cons.IH)
  moreover have "lineOf a e = lineOf b e"
    unfolding lineOf_def Cons.prems by (rule refl)
  ultimately show ?case by simp
qed

lemma orphan_skipped:
  assumes "orphanEnd es1 e"
  shows "specLines [] (es1 @ e # es2) = specLines [] (es1 @ es2)"
proof -
  have "earlierBegin (es1 @ [e]) = earlierBegin es1"
    using assms by (simp add: earlierBegin_snoc orphanEnd_def)
  then have "specLines (es1 @ [e]) es2 = specLines es1 es2"
    by (rule specLines_cong)
  moreover have "lineOf es1 e = []"
    using assms by (simp add: lineOf_def orphanEnd_def)
  ultimately show ?thesis
    by (simp add: specLines_append)
qed

lemma lineOf_no_newline:
  assumes "CHR 0x0A \<notin> set (timelineName e)"
    and "\<forall>b\<in>set earlier. CHR 0x0A \<notin> set (timelineName b)"
  shows "\<forall>l\<in>set (lineOf earlier e). CHR 0x0A \<notin> set l"
proof (cases "type e")
  case BEGIN
  with assms(1) show ?thesis
    by (simp add: lineOf_def beginLine_def showU64_def showDigits_no_newline)
next
  case END
  show ?thesis
  proof (cases "earlierBegin earlier (id' e)")
    case None
    with END show ?thesis by (simp add: lineOf_def)
  next
    case (Some b)
    then have "b \<in> set earlier"
      by (auto simp: earlierBegin_def find_Some_iff)
    with assms(2) have "CHR 0x0A \<notin> set (timelineName b)" by blast
    with END Some show ?thesis
      by (simp add: lineOf_def endLine_def showU64_def showDigits_no_newline)
  qed
qed

lemma specLines_no_newline:
  assumes "\<forall>e\<in>set es. CHR 0x0A \<notin> set (timelineName e)"
    and "\<forall>b\<in>set earlier. CHR 0x0A \<notin> set (timelineName b)"
  shows "\<forall>l\<in>set (specLines earlier es). CHR 0x0A \<notin> set l"
  using assms
proof (induction es arbitrary: earlier)
  case Nil
  show ?case by simp
next
  case (Cons e es)
  have "\<forall>l\<in>set (lineOf earlier e). CHR 0x0A \<notin> set l"
    using Cons.prems by (intro lineOf_no_newline) simp_all
  moreover have "\<forall>l\<in>set (specLines (earlier @ [e]) es). CHR 0x0A \<notin> set l"
    using Cons.prems by (intro Cons.IH) simp_all
  ultimately show ?case by auto
qed

lemma count_newlines_joinLines:
  assumes "\<forall>l\<in>set ls. CHR 0x0A \<notin> set l"
  shows "count_list (joinLines ls) (CHR 0x0A) = length ls - 1"
  using assms
  by (induction ls rule: joinLines.induct) (simp_all add: endl_def)

text \<open>
  Claim C8. For every Timeline, the text \<^verbatim>\<open>toString\<close> returns is the specification's
  lines joined by line feeds: an End event with no Begin event of its id earlier in the
  sequence gives no line, every other event gives exactly one, so the number of lines
  is the number of events that are not such orphans; removing an orphan End event from
  the sequence leaves the text unchanged; the text depends on the event sequence only,
  not on the id counter or the nesting counter; and when no event name contains a line
  feed, the line feeds in the text are one fewer than the events that are not orphans.
  \<^verbatim>\<open>toString\<close> takes the Timeline by reference to const and returns the text only.
\<close>

theorem toString_skips_orphan_ends:
  "toString src = joinLines (specLines [] (elems src)) \<and>
   length (lineOf earlier e) = (if orphanEnd earlier e then 0 else 1) \<and>
   length (specLines [] (elems src)) + orphans [] (elems src) = length (elems src) \<and>
   (orphanEnd es1 e \<longrightarrow>
      toString (src\<lparr>elems := es1 @ e # es2\<rparr>) = toString (src\<lparr>elems := es1 @ es2\<rparr>)) \<and>
   toString (src\<lparr>eventIdCounter := c, lastDepth := d\<rparr>) = toString src \<and>
   ((\<forall>x\<in>set (elems src). CHR 0x0A \<notin> set (timelineName x)) \<longrightarrow>
      count_list (toString src) (CHR 0x0A) = length (elems src) - orphans [] (elems src) - 1)"
proof -
  have skip: "orphanEnd es1 e \<longrightarrow>
      toString (src\<lparr>elems := es1 @ e # es2\<rparr>) = toString (src\<lparr>elems := es1 @ es2\<rparr>)"
    by (simp add: toString_eq_specLines orphan_skipped)
  have pure: "toString (src\<lparr>eventIdCounter := c, lastDepth := d\<rparr>) = toString src"
    by (simp add: toString_eq_specLines)
  have lines: "(\<forall>x\<in>set (elems src). CHR 0x0A \<notin> set (timelineName x)) \<longrightarrow>
      count_list (toString src) (CHR 0x0A) = length (elems src) - orphans [] (elems src) - 1"
  proof
    assume names: "\<forall>x\<in>set (elems src). CHR 0x0A \<notin> set (timelineName x)"
    then have "\<forall>l\<in>set (specLines [] (elems src)). CHR 0x0A \<notin> set l"
      by (intro specLines_no_newline) simp_all
    then have "count_list (toString src) (CHR 0x0A) = length (specLines [] (elems src)) - 1"
      by (simp add: toString_eq_specLines count_newlines_joinLines)
    moreover have "length (specLines [] (elems src)) = length (elems src) - orphans [] (elems src)"
      using length_specLines [of "[]" "elems src"] by simp
    ultimately show "count_list (toString src) (CHR 0x0A) =
        length (elems src) - orphans [] (elems src) - 1"
      by simp
  qed
  show ?thesis
    using skip pure lines length_specLines [of "[]" "elems src"]
    by (simp add: toString_eq_specLines length_lineOf)
qed

theorem toString_skips_orphan_ends_witness:
  "orphanEnd [mkTimelineElem ''f'' BEGIN 0 0 10] (mkTimelineElem ''x'' END 7 5 15) \<and>
   toString \<lparr>eventIdCounter = 2,
             elems = [mkTimelineElem ''f'' BEGIN 0 0 10, mkTimelineElem ''x'' END 7 5 15,
                      mkTimelineElem ''g'' BEGIN 1 1 20, mkTimelineElem ''g'' END 1 1 30,
                      mkTimelineElem ''f'' END 0 0 60],
             lastDepth = 0\<rparr> =
   toString \<lparr>eventIdCounter = 2,
             elems = [mkTimelineElem ''f'' BEGIN 0 0 10,
                      mkTimelineElem ''g'' BEGIN 1 1 20, mkTimelineElem ''g'' END 1 1 30,
                      mkTimelineElem ''f'' END 0 0 60],
             lastDepth = 0\<rparr> \<and>
   toString \<lparr>eventIdCounter = 2,
             elems = [mkTimelineElem ''f'' BEGIN 0 0 10, mkTimelineElem ''x'' END 7 5 15,
                      mkTimelineElem ''g'' BEGIN 1 1 20, mkTimelineElem ''g'' END 1 1 30,
                      mkTimelineElem ''f'' END 0 0 60],
             lastDepth = 0\<rparr> =
   joinLines [''f, 10'', '' g, 20'', '' g, 30, 10'', ''f, 60, 50''] \<and>
   count_list (toString \<lparr>eventIdCounter = 2,
             elems = [mkTimelineElem ''f'' BEGIN 0 0 10, mkTimelineElem ''x'' END 7 5 15,
                      mkTimelineElem ''g'' BEGIN 1 1 20, mkTimelineElem ''g'' END 1 1 30,
                      mkTimelineElem ''f'' END 0 0 60],
             lastDepth = 0\<rparr>) (CHR 0x0A) = 3"
  using toString_skips_orphan_ends [of
      "\<lparr>eventIdCounter = 2,
        elems = [mkTimelineElem ''f'' BEGIN 0 0 10, mkTimelineElem ''x'' END 7 5 15,
                 mkTimelineElem ''g'' BEGIN 1 1 20, mkTimelineElem ''g'' END 1 1 30,
                 mkTimelineElem ''f'' END 0 0 60],
        lastDepth = 0\<rparr>"
      "[mkTimelineElem ''f'' BEGIN 0 0 10]" "mkTimelineElem ''x'' END 7 5 15"
      "[mkTimelineElem ''f'' BEGIN 0 0 10]"
      "[mkTimelineElem ''g'' BEGIN 1 1 20, mkTimelineElem ''g'' END 1 1 30,
        mkTimelineElem ''f'' END 0 0 60]" 2 0]
  by (simp add: orphanEnd_def lineOf_def earlierBegin_def beginLine_def endLine_def
      mkTimelineElem_def showU64_def getEpochUs_def showDigits.simps endl_def
      toString_eq_specLines)

end
